theory Spec2Isabelle
  imports Main "HOL-Library.Word"
begin

unbundle bit_operations_syntax

section \<open>Bytes and strings\<close>

text \<open>
  A Go \<open>string\<close> is an immutable sequence of bytes and is modelled by \<open>string\<close>
  (a list of 8-bit characters); a \<open>[]byte\<close> is a list of 8-bit words. The
  conversions \<open>[]byte(s)\<close> and \<open>string(b)\<close> copy the bytes unchanged.
\<close>

type_synonym byte = "8 word"

definition byte_of_char :: "char \<Rightarrow> byte" where
  "byte_of_char c = of_nat (of_char c)"

definition char_of_byte :: "byte \<Rightarrow> char" where
  "char_of_byte b = char_of (unat b)"

definition bytes_of :: "string \<Rightarrow> byte list" where
  "bytes_of s = map byte_of_char s"

definition string_of :: "byte list \<Rightarrow> string" where
  "string_of b = map char_of_byte b"

text \<open>\<open>strings.Contains(s, substr)\<close>: \<open>substr\<close> occurs in \<open>s\<close> as a contiguous run.\<close>

fun hasPrefix :: "string \<Rightarrow> string \<Rightarrow> bool" where
  "hasPrefix s [] = True"
| "hasPrefix [] (p # ps) = False"
| "hasPrefix (c # cs) (p # ps) = (c = p \<and> hasPrefix cs ps)"

fun Contains :: "string \<Rightarrow> string \<Rightarrow> bool" where
  "Contains [] substr = (substr = [])"
| "Contains (c # cs) substr = (hasPrefix (c # cs) substr \<or> Contains cs substr)"

text \<open>\<open>strconv.Itoa\<close> on a non-negative number: its decimal digits.\<close>

definition digit :: "nat \<Rightarrow> char" where
  "digit d = char_of (48 + d)"

fun Itoa :: "nat \<Rightarrow> string" where
  "Itoa n = (if n < 10 then [digit n] else Itoa (n div 10) @ [digit (n mod 10)])"

declare Itoa.simps [simp del]

section \<open>Errors\<close>

text \<open>
  The error values the package can hand out or panic with: \<open>aes.KeySizeError\<close> (the
  key length), \<open>base64.CorruptInputError\<close> (the offset of the offending input byte)
  and errors that are only a message (\<open>errors.New\<close>, the keyring's errors, the
  \<open>*fs.PathError\<close> of a failed file operation). \<open>Error\<close> is the method \<open>err.Error()\<close>.
\<close>

datatype error =
    KeySizeError nat
  | CorruptInputError int
  | ErrorString string

fun Error :: "error \<Rightarrow> string" where
  "Error (KeySizeError k) = ''crypto/aes: invalid key size '' @ Itoa k"
| "Error (CorruptInputError n) =
     ''illegal base64 data at input byte '' @ (if n < 0 then ''-'' else '''') @ Itoa (nat \<bar>n\<bar>)"
| "Error (ErrorString msg) = msg"

text \<open>A call either returns its results or panics with an error value.\<close>

datatype 'a outcome = Returned 'a | Panicked error

section \<open>encoding/base64: the standard encoding, padded\<close>

definition encodeStd :: string where
  "encodeStd = ''ABCDEFGHIJKLMNOPQRSTUVWXYZabcdefghijklmnopqrstuvwxyz0123456789+/''"

definition padChar :: char where
  "padChar = CHR ''=''"

text \<open>
  \<open>EncodeToString\<close>: three bytes are packed into 24 bits and cut into four 6-bit
  indices into the alphabet; a last group of one or two bytes is padded with \<open>=\<close>.
  The 24-bit value \<open>val\<close> is a natural number here: the shifts \<open>x << k\<close> and
  \<open>x >> k\<close> are \<open>x * 2 ^ k\<close> and \<open>x div 2 ^ k\<close>, the mask \<open>& 0x3F\<close> is \<open>mod 64\<close>,
  and \<open>|\<close> joins fields that do not overlap, so it is \<open>+\<close>.
\<close>

fun EncodeToString :: "byte list \<Rightarrow> string" where
  "EncodeToString [] = []"
| "EncodeToString [a] =
     (let val = unat a * 2 ^ 16
      in [encodeStd ! (val div 2 ^ 18 mod 64), encodeStd ! (val div 2 ^ 12 mod 64),
          padChar, padChar])"
| "EncodeToString [a, b] =
     (let val = unat a * 2 ^ 16 + unat b * 2 ^ 8
      in [encodeStd ! (val div 2 ^ 18 mod 64), encodeStd ! (val div 2 ^ 12 mod 64),
          encodeStd ! (val div 2 ^ 6 mod 64), padChar])"
| "EncodeToString (a # b # c # rest) =
     (let val = unat a * 2 ^ 16 + unat b * 2 ^ 8 + unat c
      in [encodeStd ! (val div 2 ^ 18 mod 64), encodeStd ! (val div 2 ^ 12 mod 64),
          encodeStd ! (val div 2 ^ 6 mod 64), encodeStd ! (val mod 64)]
         @ EncodeToString rest)"

text \<open>
  The decoding table: the index of a character in the alphabet, \<open>0xFF\<close> for a
  character outside it.
\<close>

primrec decodeMapFrom :: "string \<Rightarrow> nat \<Rightarrow> char \<Rightarrow> nat" where
  "decodeMapFrom [] i c = 255"
| "decodeMapFrom (e # es) i c = (if c = e then i else decodeMapFrom es (Suc i) c)"

definition decodeMap :: "char \<Rightarrow> nat" where
  "decodeMap c = decodeMapFrom encodeStd 0 c"

definition isNewline :: "char \<Rightarrow> bool" where
  "isNewline c = (c = CHR 0x0A \<or> c = CHR 0x0D)"

text \<open>\<open>for si < len(src) && (src[si] == '\n' || src[si] == '\r') { si++ }\<close>\<close>

fun skipNewlines :: "string \<Rightarrow> int \<Rightarrow> string \<times> int" where
  "skipNewlines [] si = ([], si)"
| "skipNewlines (c # cs) si =
     (if isNewline c then skipNewlines cs (si + 1) else (c # cs, si))"

text \<open>
  The end of a quantum: \<open>dlen\<close> 6-bit values (the missing ones are 0) are packed
  into 24 bits and give \<open>dlen - 1\<close> bytes.
\<close>

definition quantumBytes :: "nat list \<Rightarrow> byte list" where
  "quantumBytes dbuf =
     (let d = dbuf @ replicate (4 - length dbuf) 0;
          val = d ! 0 * 2 ^ 18 + d ! 1 * 2 ^ 12 + d ! 2 * 2 ^ 6 + d ! 3
      in take (length dbuf - 1)
           [of_nat (val div 2 ^ 16), of_nat (val div 2 ^ 8), of_nat val])"

text \<open>
  \<open>DecodeString\<close>, the loop of \<open>Decode\<close> over \<open>decodeQuantum\<close> written as one
  recursion over the input. \<open>dbuf\<close> holds the 6-bit values of the quantum being
  read (\<open>j\<close> is its length), \<open>si\<close> is the offset of the next input byte and \<open>n\<close>
  the length of the whole input. Line breaks are skipped. An error is reported at
  the first character outside the alphabet, at an input that ends inside a
  quantum, at misplaced or missing padding and at anything after the padding.
  The standard encoding is not strict: non-zero spare bits before the padding
  are accepted.
\<close>

fun decodeFrom :: "int \<Rightarrow> nat list \<Rightarrow> int \<Rightarrow> string \<Rightarrow> error + byte list" where
  "decodeFrom n dbuf si [] =
     (if dbuf = [] then Inr []
      else Inl (CorruptInputError (si - int (length dbuf))))"
| "decodeFrom n dbuf si (c # src) =
     (if decodeMap c \<noteq> 255 then
        (if length dbuf = 3 then
           (case decodeFrom n [] (si + 1) src of
              Inl e \<Rightarrow> Inl e
            | Inr rest \<Rightarrow> Inr (quantumBytes (dbuf @ [decodeMap c]) @ rest))
         else decodeFrom n (dbuf @ [decodeMap c]) (si + 1) src)
      else if isNewline c then decodeFrom n dbuf (si + 1) src
      else if c \<noteq> padChar then Inl (CorruptInputError si)
      else if length dbuf < 2 then Inl (CorruptInputError si)
      else
        (let after =
               (if length dbuf = 2 then
                  (case skipNewlines src (si + 1) of
                     ([], si1) \<Rightarrow> Inl (CorruptInputError n)
                   | (c1 # src1, si1) \<Rightarrow>
                       if c1 \<noteq> padChar then Inl (CorruptInputError (si1 - 1))
                       else Inr (src1, si1 + 1))
                else Inr (src, si + 1))
         in case after of
              Inl e \<Rightarrow> Inl e
            | Inr (src2, si2) \<Rightarrow>
                (case skipNewlines src2 si2 of
                   ([], si3) \<Rightarrow> Inr (quantumBytes dbuf)
                 | (c3 # src3, si3) \<Rightarrow> Inl (CorruptInputError si3))))"

definition DecodeString :: "string \<Rightarrow> error + byte list" where
  "DecodeString s = decodeFrom (int (length s)) [] 0 s"

section \<open>crypto/aes: the block cipher\<close>

text \<open>
  \<open>aes.NewCipher\<close> accepts a key of 16, 24 or 32 bytes (AES-128, AES-192,
  AES-256) and fails with \<open>KeySizeError\<close> for every other length. The block
  it returns keeps the key; \<open>Encrypt\<close> enciphers one 16-byte block as FIPS-197
  describes, the state held column by column.
\<close>

definition BlockSize :: nat where
  "BlockSize = 16"

definition sbox :: "byte list" where
  "sbox =
     [
      0x63, 0x7c, 0x77, 0x7b, 0xf2, 0x6b, 0x6f, 0xc5, 0x30, 0x01, 0x67, 0x2b, 0xfe, 0xd7, 0xab, 0x76,
      0xca, 0x82, 0xc9, 0x7d, 0xfa, 0x59, 0x47, 0xf0, 0xad, 0xd4, 0xa2, 0xaf, 0x9c, 0xa4, 0x72, 0xc0,
      0xb7, 0xfd, 0x93, 0x26, 0x36, 0x3f, 0xf7, 0xcc, 0x34, 0xa5, 0xe5, 0xf1, 0x71, 0xd8, 0x31, 0x15,
      0x04, 0xc7, 0x23, 0xc3, 0x18, 0x96, 0x05, 0x9a, 0x07, 0x12, 0x80, 0xe2, 0xeb, 0x27, 0xb2, 0x75,
      0x09, 0x83, 0x2c, 0x1a, 0x1b, 0x6e, 0x5a, 0xa0, 0x52, 0x3b, 0xd6, 0xb3, 0x29, 0xe3, 0x2f, 0x84,
      0x53, 0xd1, 0x00, 0xed, 0x20, 0xfc, 0xb1, 0x5b, 0x6a, 0xcb, 0xbe, 0x39, 0x4a, 0x4c, 0x58, 0xcf,
      0xd0, 0xef, 0xaa, 0xfb, 0x43, 0x4d, 0x33, 0x85, 0x45, 0xf9, 0x02, 0x7f, 0x50, 0x3c, 0x9f, 0xa8,
      0x51, 0xa3, 0x40, 0x8f, 0x92, 0x9d, 0x38, 0xf5, 0xbc, 0xb6, 0xda, 0x21, 0x10, 0xff, 0xf3, 0xd2,
      0xcd, 0x0c, 0x13, 0xec, 0x5f, 0x97, 0x44, 0x17, 0xc4, 0xa7, 0x7e, 0x3d, 0x64, 0x5d, 0x19, 0x73,
      0x60, 0x81, 0x4f, 0xdc, 0x22, 0x2a, 0x90, 0x88, 0x46, 0xee, 0xb8, 0x14, 0xde, 0x5e, 0x0b, 0xdb,
      0xe0, 0x32, 0x3a, 0x0a, 0x49, 0x06, 0x24, 0x5c, 0xc2, 0xd3, 0xac, 0x62, 0x91, 0x95, 0xe4, 0x79,
      0xe7, 0xc8, 0x37, 0x6d, 0x8d, 0xd5, 0x4e, 0xa9, 0x6c, 0x56, 0xf4, 0xea, 0x65, 0x7a, 0xae, 0x08,
      0xba, 0x78, 0x25, 0x2e, 0x1c, 0xa6, 0xb4, 0xc6, 0xe8, 0xdd, 0x74, 0x1f, 0x4b, 0xbd, 0x8b, 0x8a,
      0x70, 0x3e, 0xb5, 0x66, 0x48, 0x03, 0xf6, 0x0e, 0x61, 0x35, 0x57, 0xb9, 0x86, 0xc1, 0x1d, 0x9e,
      0xe1, 0xf8, 0x98, 0x11, 0x69, 0xd9, 0x8e, 0x94, 0x9b, 0x1e, 0x87, 0xe9, 0xce, 0x55, 0x28, 0xdf,
      0x8c, 0xa1, 0x89, 0x0d, 0xbf, 0xe6, 0x42, 0x68, 0x41, 0x99, 0x2d, 0x0f, 0xb0, 0x54, 0xbb, 0x16]"

definition subByte :: "byte \<Rightarrow> byte" where
  "subByte b = sbox ! unat b"

text \<open>Multiplication by \<open>x\<close> in the field of 256 elements (reduction by \<open>0x11b\<close>).\<close>

definition xtime :: "byte \<Rightarrow> byte" where
  "xtime b = (if bit b 7 then push_bit 1 b XOR 0x1b else push_bit 1 b)"

definition subBytes :: "byte list \<Rightarrow> byte list" where
  "subBytes s = map subByte s"

definition shiftRows :: "byte list \<Rightarrow> byte list" where
  "shiftRows s = map (\<lambda>i. s ! (i mod 4 + 4 * ((i div 4 + i mod 4) mod 4))) [0..<16]"

definition mixColumn :: "byte list \<Rightarrow> byte list" where
  "mixColumn a =
     [xtime (a ! 0) XOR (xtime (a ! 1) XOR a ! 1) XOR a ! 2 XOR a ! 3,
      a ! 0 XOR xtime (a ! 1) XOR (xtime (a ! 2) XOR a ! 2) XOR a ! 3,
      a ! 0 XOR a ! 1 XOR xtime (a ! 2) XOR (xtime (a ! 3) XOR a ! 3),
      (xtime (a ! 0) XOR a ! 0) XOR a ! 1 XOR a ! 2 XOR xtime (a ! 3)]"

definition mixColumns :: "byte list \<Rightarrow> byte list" where
  "mixColumns s = concat (map (\<lambda>c. mixColumn (take 4 (drop (4 * c) s))) [0..<4])"

definition addRoundKey :: "byte list \<Rightarrow> byte list \<Rightarrow> byte list" where
  "addRoundKey s k = map (\<lambda>i. s ! i XOR k ! i) [0..<16]"

text \<open>
  The key schedule: \<open>w\<close> is the list of 4-byte words made so far, \<open>rc\<close> the
  round constant for the next multiple of \<open>nk\<close>, \<open>k\<close> the number of words still
  to make.
\<close>

fun expandKey :: "nat \<Rightarrow> nat \<Rightarrow> byte \<Rightarrow> byte list list \<Rightarrow> byte list list" where
  "expandKey nk 0 rc w = w"
| "expandKey nk (Suc k) rc w =
     (let i = length w;
          temp = w ! (i - 1);
          rot = map subByte (drop 1 temp @ take 1 temp);
          t = (if i mod nk = 0 then (hd rot XOR rc) # tl rot
               else if 6 < nk \<and> i mod nk = 4 then map subByte temp
               else temp);
          rc' = (if i mod nk = 0 then xtime rc else rc)
      in expandKey nk k rc' (w @ [map (\<lambda>j. (w ! (i - nk)) ! j XOR t ! j) [0..<4]]))"

definition keyWords :: "byte list \<Rightarrow> byte list list" where
  "keyWords key = map (\<lambda>i. take 4 (drop (4 * i) key)) [0..<length key div 4]"

definition roundKeys :: "byte list \<Rightarrow> byte list" where
  "roundKeys key =
     (let nk = length key div 4
      in concat (expandKey nk (4 * (nk + 7) - nk) 1 (keyWords key)))"

fun rounds :: "nat \<Rightarrow> nat \<Rightarrow> byte list \<Rightarrow> byte list \<Rightarrow> byte list" where
  "rounds 0 r xk s = s"
| "rounds (Suc k) r xk s =
     rounds k (Suc r) xk
       (addRoundKey (mixColumns (shiftRows (subBytes s))) (take 16 (drop (16 * r) xk)))"

datatype Block = Block (blockKey: "byte list")

definition NewCipher :: "byte list \<Rightarrow> error + Block" where
  "NewCipher key =
     (if length key = 16 \<or> length key = 24 \<or> length key = 32 then Inr (Block key)
      else Inl (KeySizeError (length key)))"

definition Encrypt :: "Block \<Rightarrow> byte list \<Rightarrow> byte list" where
  "Encrypt b src =
     (let xk = roundKeys (blockKey b);
          nr = length (blockKey b) div 4 + 6;
          s = rounds (nr - 1) 1 xk (addRoundKey src (take 16 xk))
      in addRoundKey (shiftRows (subBytes s)) (take 16 (drop (16 * nr) xk)))"

section \<open>crypto/cipher: cipher feedback mode\<close>

text \<open>
  \<open>subtle.XORBytes\<close> xors as many bytes as the shorter argument has; \<open>copy\<close>
  overwrites the front of its destination and keeps its length.
\<close>

definition XORBytes :: "byte list \<Rightarrow> byte list \<Rightarrow> byte list" where
  "XORBytes x y = map (\<lambda>(a, b). a XOR b) (zip x y)"

definition copy :: "byte list \<Rightarrow> byte list \<Rightarrow> byte list" where
  "copy dst src = take (length dst) src @ drop (length src) dst"

text \<open>
  \<open>XORKeyStream\<close> of a stream made by \<open>NewCFBEncrypter\<close> (\<open>decrypt\<close> false) or
  \<open>NewCFBDecrypter\<close> (\<open>decrypt\<close> true), called once on the whole input.
  \<open>next\<close> starts as a copy of the IV; each turn of the loop enciphers \<open>next\<close>
  into the key stream block \<open>out\<close>, xors it onto at most 16 bytes of the input
  and puts the ciphertext of this turn into \<open>next\<close>.
\<close>

function XORKeyStream :: "Block \<Rightarrow> bool \<Rightarrow> byte list \<Rightarrow> byte list \<Rightarrow> byte list" where
  "XORKeyStream b decrypt next src =
     (if src = [] then []
      else
        (let out = Encrypt b next;
             dst = XORBytes src out;
             next' = (if decrypt then copy next src else copy next dst)
         in dst @ XORKeyStream b decrypt next' (drop (length dst) src)))"
  by pat_completeness auto
termination
  by (relation "measure (\<lambda>(b, decrypt, next, src). length src)")
    (auto simp: XORBytes_def Encrypt_def addRoundKey_def Let_def)

declare XORKeyStream.simps [simp del]

section \<open>The package: constants and the symmetric transform\<close>

text \<open>
  The package variables: the initialisation vector \<open>bytes\<close> (the Go literal \<open>05\<close>
  is octal five), \<open>keySize\<close> and the alphabet \<open>letterRunes\<close> of the password
  generator. No function of the package assigns to them.
\<close>

definition bytes :: "byte list" where
  "bytes = [35, 46, 57, 24, 85, 35, 24, 74, 87, 35, 88, 98, 66, 32, 14, 5]"

definition keySize :: nat where
  "keySize = 32"

definition letterRunes :: string where
  "letterRunes = ''abcdefghijklmnopqrstuvwxyzABCDEFGHIJKLMNOPQRSTUVWXYZ123456789''"

definition encode :: "byte list \<Rightarrow> string" where
  "encode b = EncodeToString b"

text \<open>\<open>decode\<close> has no error result: a decoding error is a panic.\<close>

definition decode :: "string \<Rightarrow> byte list outcome" where
  "decode s =
     (case DecodeString s of
        Inl err \<Rightarrow> Panicked err
      | Inr data \<Rightarrow> Returned data)"

text \<open>
  \<open>encrypt\<close> and \<open>decrypt\<close> return \<open>("", err)\<close> when the cipher cannot be made;
  \<open>Inl err\<close> stands for that pair. \<open>NewCFBEncrypter\<close> and \<open>NewCFBDecrypter\<close>
  would panic on an IV that is not one block long; \<open>bytes\<close> has 16 elements.
\<close>

definition encrypt :: "string \<Rightarrow> string \<Rightarrow> error + string" where
  "encrypt text password =
     (case NewCipher (bytes_of password) of
        Inl err \<Rightarrow> Inl err
      | Inr block \<Rightarrow>
          (let plainText = bytes_of text;
               cipherText = XORKeyStream block False bytes plainText
           in Inr (encode cipherText)))"

definition decrypt :: "string \<Rightarrow> string \<Rightarrow> (error + string) outcome" where
  "decrypt encrypted password =
     (case NewCipher (bytes_of password) of
        Inl err \<Rightarrow> Returned (Inl err)
      | Inr block \<Rightarrow>
          (case decode encrypted of
             Panicked e \<Rightarrow> Panicked e
           | Returned cipherText \<Rightarrow>
               (let plainText = XORKeyStream block True bytes cipherText
                in Returned (Inr (string_of plainText)))))"

section \<open>The world outside the package\<close>

text \<open>
  What the package reaches through its imports is a record that every effectful
  function takes and returns: the process environment, the OS keyring (its
  secrets, and the error text of a backend that cannot be read or written), the
  file system (the files, the error text of a path that cannot be read or
  written, and the text the platform gives for a file that does not exist), the
  clock, and the state of \<open>math/rand\<close> (the seed, the number of values drawn
  since, and for each seed the sequence of raw values it yields). \<open>calls\<close>
  lists the calls made on the keyring and the file system, in order.
\<close>

datatype event =
    KeyringGet string string
  | KeyringSet string string string
  | ReadFileCall string
  | WriteFileCall string string

record world =
  environ :: "string \<rightharpoonup> string"
  secrets :: "string \<times> string \<rightharpoonup> string"
  keyringGetFault :: "string option"
  keyringSetFault :: "string option"
  files :: "string \<rightharpoonup> string"
  readFault :: "string \<rightharpoonup> string"
  writeFault :: "string \<rightharpoonup> string"
  notExistText :: string
  now :: int
  randSource :: "int \<Rightarrow> nat \<Rightarrow> nat"
  randSeed :: int
  randPos :: nat
  calls :: "event list"

definition called :: "event \<Rightarrow> world \<Rightarrow> world" where
  "called e w = w\<lparr>calls := calls w @ [e]\<rparr>"

text \<open>\<open>os.Getenv\<close>: the value of the variable, empty when it is not set.\<close>

definition Getenv :: "string \<Rightarrow> world \<Rightarrow> string" where
  "Getenv key w = (case environ w key of None \<Rightarrow> [] | Some val \<Rightarrow> val)"

text \<open>go-keyring: \<open>ErrNotFound\<close>, \<open>Get\<close> and \<open>Set\<close>.\<close>

definition ErrNotFound :: error where
  "ErrNotFound = ErrorString ''secret not found in keyring''"

definition keyring_Get :: "string \<Rightarrow> string \<Rightarrow> world \<Rightarrow> (error + string) \<times> world" where
  "keyring_Get service user w =
     (case keyringGetFault w of
        Some msg \<Rightarrow> Inl (ErrorString msg)
      | None \<Rightarrow>
          (case secrets w (service, user) of
             None \<Rightarrow> Inl ErrNotFound
           | Some password \<Rightarrow> Inr password),
      called (KeyringGet service user) w)"

definition keyring_Set :: "string \<Rightarrow> string \<Rightarrow> string \<Rightarrow> world \<Rightarrow> error option \<times> world" where
  "keyring_Set service user password w =
     (case keyringSetFault w of
        Some msg \<Rightarrow> (Some (ErrorString msg), called (KeyringSet service user password) w)
      | None \<Rightarrow>
          (None, called (KeyringSet service user password)
                   (w\<lparr>secrets := (secrets w)((service, user) \<mapsto> password)\<rparr>)))"

text \<open>
  \<open>ioutil.ReadFile\<close> and \<open>ioutil.WriteFile\<close>. A failure is the failure to
  open the path, a \<open>*fs.PathError\<close> whose message is the operation, the path and
  the text of the system's error; the files are then as before. The permission
  bits \<open>0600\<close> are not modelled.
\<close>

definition PathError :: "string \<Rightarrow> string \<Rightarrow> string \<Rightarrow> error" where
  "PathError op path msg = ErrorString (op @ '' '' @ path @ '': '' @ msg)"

definition ReadFile :: "string \<Rightarrow> world \<Rightarrow> (error + string) \<times> world" where
  "ReadFile name w =
     (case readFault w name of
        Some msg \<Rightarrow> Inl (PathError ''open'' name msg)
      | None \<Rightarrow>
          (case files w name of
             None \<Rightarrow> Inl (PathError ''open'' name (notExistText w))
           | Some data \<Rightarrow> Inr data),
      called (ReadFileCall name) w)"

definition WriteFile :: "string \<Rightarrow> string \<Rightarrow> world \<Rightarrow> error option \<times> world" where
  "WriteFile name data w =
     (case writeFault w name of
        Some msg \<Rightarrow> (Some (PathError ''open'' name msg), called (WriteFileCall name data) w)
      | None \<Rightarrow>
          (None, called (WriteFileCall name data) (w\<lparr>files := (files w)(name \<mapsto> data)\<rparr>)))"

text \<open>
  \<open>rand.Seed\<close> restarts the generator; \<open>rand.Intn n\<close> draws the next raw value
  and reduces it below \<open>n\<close> (it panics for \<open>n \<le> 0\<close>; its one call here passes
  the length of \<open>letterRunes\<close>). \<open>time.Now().UnixNano()\<close> is \<open>now\<close>.
\<close>

definition Seed :: "int \<Rightarrow> world \<Rightarrow> world" where
  "Seed seed w = w\<lparr>randSeed := seed, randPos := 0\<rparr>"

definition Intn :: "nat \<Rightarrow> world \<Rightarrow> nat \<times> world" where
  "Intn n w = (randSource w (randSeed w) (randPos w) mod n, w\<lparr>randPos := Suc (randPos w)\<rparr>)"

section \<open>The vault\<close>

record VaultInput =
  Service :: string
  User :: string
  PasswordEnvVar :: string
  Filename :: string

record Vault =
  service :: string
  user :: string
  filename :: string
  passwordEnvVar :: string
  keyring :: bool

text \<open>\<open>randStringRunes n\<close> fills \<open>b[0]\<close>, \<open>b[1]\<close>, ... in this order.\<close>

fun randStringRunes :: "nat \<Rightarrow> world \<Rightarrow> string \<times> world" where
  "randStringRunes 0 w = ([], w)"
| "randStringRunes (Suc n) w =
     (case Intn (length letterRunes) w of
        (k, w1) \<Rightarrow>
          (case randStringRunes n w1 of
             (rest, w2) \<Rightarrow> (letterRunes ! k # rest, w2)))"

definition NewVaultPassword :: "world \<Rightarrow> string \<times> world" where
  "NewVaultPassword w = randStringRunes keySize (Seed (now w) w)"

definition initKeyring :: "string \<Rightarrow> string \<Rightarrow> world \<Rightarrow> error option \<times> world" where
  "initKeyring service' user' w =
     (case NewVaultPassword w of
        (password, w1) \<Rightarrow> keyring_Set service' user' password w1)"

definition getPasswordEnv :: "Vault \<Rightarrow> world \<Rightarrow> error + string" where
  "getPasswordEnv v w =
     (let password = Getenv (passwordEnvVar v) w
      in if password = []
         then Inl (ErrorString (''no password found in '' @ passwordEnvVar v @ '' env var''))
         else Inr password)"

definition getPasswordKeyring :: "Vault \<Rightarrow> world \<Rightarrow> (error + string) \<times> world" where
  "getPasswordKeyring v w = keyring_Get (service v) (user v) w"

definition getPassword :: "Vault \<Rightarrow> world \<Rightarrow> (error + string) \<times> world" where
  "getPassword v w =
     (if keyring v then getPasswordKeyring v w else (getPasswordEnv v w, w))"

definition loadFromDisk :: "Vault \<Rightarrow> world \<Rightarrow> (error + string) outcome \<times> world" where
  "loadFromDisk v w =
     (case ReadFile (filename v) w of
        (Inl err, w1) \<Rightarrow> (Returned (Inl err), w1)
      | (Inr data, w1) \<Rightarrow>
          (case getPassword v w1 of
             (Inl err, w2) \<Rightarrow> (Returned (Inl err), w2)
           | (Inr password, w2) \<Rightarrow> (decrypt data password, w2)))"

definition Write :: "Vault \<Rightarrow> string \<Rightarrow> world \<Rightarrow> error option \<times> world" where
  "Write v contents w =
     (case getPassword v w of
        (Inl err, w1) \<Rightarrow> (Some err, w1)
      | (Inr password, w1) \<Rightarrow>
          (case encrypt contents password of
             Inl err \<Rightarrow> (Some err, w1)
           | Inr encrypted \<Rightarrow> WriteFile (filename v) encrypted w1))"

definition Read :: "Vault \<Rightarrow> world \<Rightarrow> (error + string) outcome \<times> world" where
  "Read v w = loadFromDisk v w"

text \<open>
  The initialisers return the vault together with the error, also when the error
  is set. \<open>InitKeyring\<close> is in two parts: the keyring (up to the first
  \<open>v.keyring = true\<close> that every path reaches), then the file (\<open>loadVault\<close>,
  from \<open>v.keyring = true\<close> to the end).
\<close>

definition InitEnvVar :: "VaultInput \<Rightarrow> world \<Rightarrow> (Vault \<times> error option) \<times> world" where
  "InitEnvVar i w =
     (let v = \<lparr>service = [], user = [], filename = Filename i,
                passwordEnvVar = PasswordEnvVar i, keyring = False\<rparr>
      in case getPassword v w of
           (Inl err, w1) \<Rightarrow> ((v, Some err), w1)
         | (Inr password, w1) \<Rightarrow> ((v, None), w1))"

definition loadVault :: "Vault \<Rightarrow> world \<Rightarrow> (Vault \<times> error option) outcome \<times> world" where
  "loadVault v0 w =
     (let v = v0\<lparr>keyring := True\<rparr>
      in case loadFromDisk v w of
           (Panicked e, w1) \<Rightarrow> (Panicked e, w1)
         | (Returned (Inl err), w1) \<Rightarrow>
             if Contains (Error err) ''system cannot find the file specified''
             then (case Write v [] w1 of (err', w2) \<Rightarrow> (Returned (v, err'), w2))
             else (Returned (v, Some err), w1)
         | (Returned (Inr contents), w1) \<Rightarrow> (Returned (v, None), w1))"

definition InitKeyring :: "VaultInput \<Rightarrow> world \<Rightarrow> (Vault \<times> error option) outcome \<times> world" where
  "InitKeyring i w =
     (let v = \<lparr>service = Service i, user = User i, filename = Filename i,
                passwordEnvVar = [], keyring = False\<rparr>
      in case keyring_Get (service v) (user v) w of
           (Inl err, w1) \<Rightarrow>
             if Contains (Error err) ''secret not found in keyring''
             then (case initKeyring (service v) (user v) w1 of
                     (Some err', w2) \<Rightarrow> (Returned (v, Some err'), w2)
                   | (None, w2) \<Rightarrow> loadVault (v\<lparr>keyring := True\<rparr>) w2)
             else (Returned (v, Some err), w1)
         | (Inr password, w1) \<Rightarrow> loadVault v w1)"

definition InitSmart :: "VaultInput \<Rightarrow> world \<Rightarrow> (Vault \<times> error option) outcome \<times> world" where
  "InitSmart i w =
     (if PasswordEnvVar i \<noteq> []
      then (case InitEnvVar i w of (r, w1) \<Rightarrow> (Returned r, w1))
      else InitKeyring i w)"

section \<open>A call of encrypt on the memory of the process\<close>

text \<open>
  The functions \<open>encrypt\<close> and \<open>XORKeyStream\<close> above give the result of a call
  as a value, with the IV as the value of its initialiser. This section runs
  the statements of \<open>encrypt\<close> on the memory, where the IV is read from the
  array of the package variable at the time of the call and the stream
  overwrites arrays in place.

  The byte arrays that a call of \<open>encrypt\<close> works on lie in the memory of the
  process: \<open>cells\<close> gives the contents of the array at an address, and the
  addresses below \<open>brk\<close> are in use. A slice is the address of its array.
  The package variable \<open>bytes\<close> is the slice at \<open>bytesAddr\<close>; its array is
  put there, with the value of its initialiser, when the package is loaded.
  \<open>outside\<close> is the rest of the world.
\<close>

record process =
  outside :: world
  cells :: "nat \<Rightarrow> byte list"
  brk :: nat

definition bytesAddr :: nat where
  "bytesAddr = 0"

text \<open>
  \<open>make\<close> and \<open>[]byte(s)\<close> take the next free address for a new array.
  \<open>readAt\<close> is \<open>a[off : off + n]\<close>; \<open>writeAt\<close> overwrites \<open>a[off:]\<close> from its
  front and keeps the length of the array, as \<open>copy\<close> does.
\<close>

definition alloc :: "byte list \<Rightarrow> process \<Rightarrow> nat \<times> process" where
  "alloc xs p = (brk p, p\<lparr>cells := (cells p)(brk p := xs), brk := Suc (brk p)\<rparr>)"

definition readAt :: "nat \<Rightarrow> nat \<Rightarrow> nat \<Rightarrow> process \<Rightarrow> byte list" where
  "readAt a off n p = take n (drop off (cells p a))"

definition writeAt :: "nat \<Rightarrow> nat \<Rightarrow> byte list \<Rightarrow> process \<Rightarrow> process" where
  "writeAt a off xs p =
     p\<lparr>cells := (cells p)(a := take off (cells p a) @ xs @ drop (off + length xs) (cells p a))\<rparr>"

text \<open>
  The stream of \<open>crypto/cipher\<close>: \<open>next\<close> and \<open>out\<close> are arrays of one block that
  \<open>newCFB\<close> makes, \<open>outUsed\<close> counts the bytes of \<open>out\<close> already used. \<open>newCFB\<close>
  panics on an IV that is not one block long and copies the IV into \<open>next\<close>: the
  stream never writes to the array of the IV.
\<close>

record cfb =
  cfbBlock :: Block
  cfbNext :: nat
  cfbOut :: nat
  cfbOutUsed :: nat
  cfbDecrypt :: bool

definition newCFB :: "Block \<Rightarrow> nat \<Rightarrow> bool \<Rightarrow> process \<Rightarrow> cfb outcome \<times> process" where
  "newCFB block iv dec p =
     (if length (cells p iv) \<noteq> BlockSize
      then (Panicked (ErrorString ''cipher.newCFB: IV length must equal block size''), p)
      else
        (case alloc (replicate BlockSize 0) p of
           (out, p1) \<Rightarrow>
             (case alloc (replicate BlockSize 0) p1 of
                (nxt, p2) \<Rightarrow>
                  (Returned \<lparr>cfbBlock = block, cfbNext = nxt, cfbOut = out,
                              cfbOutUsed = BlockSize, cfbDecrypt = dec\<rparr>,
                   writeAt nxt 0 (readAt iv 0 BlockSize p2) p2))))"

definition NewCFBEncrypter :: "Block \<Rightarrow> nat \<Rightarrow> process \<Rightarrow> cfb outcome \<times> process" where
  "NewCFBEncrypter block iv p = newCFB block iv False p"

text \<open>
  The loop of \<open>XORKeyStream\<close> on the slices \<open>dst[pos:]\<close> and \<open>src[pos:]\<close>, which
  have \<open>len\<close> bytes left. A turn refills \<open>out\<close> from \<open>next\<close> when \<open>out\<close> is used
  up, xors \<open>n\<close> bytes of \<open>src\<close> with \<open>out\<close> into \<open>dst\<close>, and copies the
  ciphertext of the turn (\<open>src\<close> when decrypting, \<open>dst\<close> when encrypting) into
  \<open>next\<close>. Slicing \<open>out\<close> beyond its end panics.
\<close>

function xorKeyStreamLoop ::
  "cfb \<Rightarrow> nat \<Rightarrow> nat \<Rightarrow> nat \<Rightarrow> nat \<Rightarrow> process \<Rightarrow> process outcome" where
  "xorKeyStreamLoop x dst src pos len p =
     (if len = 0 then Returned p
      else if BlockSize < cfbOutUsed x
      then Panicked (ErrorString ''slice bounds out of range'')
      else
        (let used = (if cfbOutUsed x = BlockSize then 0 else cfbOutUsed x);
             p1 = (if cfbOutUsed x = BlockSize
                   then writeAt (cfbOut x) 0
                          (Encrypt (cfbBlock x) (readAt (cfbNext x) 0 BlockSize p)) p
                   else p);
             p2 = (if cfbDecrypt x
                   then writeAt (cfbNext x) used
                          (readAt src pos (min (BlockSize - used) len) p1) p1
                   else p1);
             n = min len (BlockSize - used);
             p3 = writeAt dst pos
                    (XORBytes (readAt src pos n p2) (readAt (cfbOut x) used n p2)) p2;
             p4 = (if cfbDecrypt x then p3
                   else writeAt (cfbNext x) used
                          (readAt dst pos (min (BlockSize - used) len) p3) p3)
         in xorKeyStreamLoop (x\<lparr>cfbOutUsed := used + n\<rparr>) dst src (pos + n) (len - n) p4))"
  by pat_completeness auto
termination
  by (relation "measure (\<lambda>(x, dst, src, pos, len, p). len)")
    (auto simp: BlockSize_def)

declare xorKeyStreamLoop.simps [simp del]

definition cfbXORKeyStream :: "cfb \<Rightarrow> nat \<Rightarrow> nat \<Rightarrow> process \<Rightarrow> process outcome" where
  "cfbXORKeyStream x dst src p =
     (if length (cells p dst) < length (cells p src)
      then Panicked (ErrorString ''crypto/cipher: output smaller than input'')
      else xorKeyStreamLoop x dst src 0 (length (cells p src)) p)"

text \<open>
  \<open>encrypt\<close>, statement by statement, on the memory: the key and the plaintext
  are converted to new arrays, the stream is made from the block and the slice
  \<open>bytes\<close>, the ciphertext is a new array of the length of the plaintext, and
  the result is the encoding of what \<open>XORKeyStream\<close> leaves in it.
\<close>

definition encryptCall :: "string \<Rightarrow> string \<Rightarrow> process \<Rightarrow> (error + string) outcome \<times> process" where
  "encryptCall text password p =
     (case alloc (bytes_of password) p of
        (key, p0) \<Rightarrow>
          (case NewCipher (cells p0 key) of
             Inl err \<Rightarrow> (Returned (Inl err), p0)
           | Inr block \<Rightarrow>
               (case alloc (bytes_of text) p0 of
                  (plainText, p1) \<Rightarrow>
                    (case NewCFBEncrypter block bytesAddr p1 of
                       (Panicked e, p2) \<Rightarrow> (Panicked e, p2)
                     | (Returned stream, p2) \<Rightarrow>
                         (case alloc (replicate (length (cells p2 plainText)) 0) p2 of
                            (cipherText, p3) \<Rightarrow>
                              (case cfbXORKeyStream stream cipherText plainText p3 of
                                 Panicked e \<Rightarrow> (Panicked e, p3)
                               | Returned p4 \<Rightarrow>
                                   (Returned (Inr (encode (cells p4 cipherText))), p4)))))))"

section \<open>Example configurations\<close>

text \<open>
  A world with nothing in it (no variable, no secret, no file, a keyring and a
  file system that work, the error text of Linux for a missing file), a vault
  that reads its password from the variable \<open>UGGSECP\<close>, the input of the
  sample program, worlds that hold a password in the variable and a file, two
  processes whose memory holds the array of \<open>bytes\<close>, and a world with a
  secret in the keyring and a file that cannot be read, under a path that holds
  the words \<open>system cannot find the file specified\<close>.
\<close>

definition exampleWorld :: world where
  "exampleWorld =
     \<lparr>environ = Map.empty, secrets = Map.empty,
      keyringGetFault = None, keyringSetFault = None,
      files = Map.empty, readFault = Map.empty, writeFault = Map.empty,
      notExistText = ''no such file or directory'',
      now = 1600000000000000000,
      randSource = (\<lambda>seed i. nat \<bar>seed\<bar> + 7 * i), randSeed = 1, randPos = 0,
      calls = []\<rparr>"

definition exampleEnvVault :: Vault where
  "exampleEnvVault =
     \<lparr>service = [], user = [], filename = ''vault.dat'',
      passwordEnvVar = ''UGGSECP'', keyring = False\<rparr>"

definition envWorld :: "string \<Rightarrow> world" where
  "envWorld password = exampleWorld\<lparr>environ := [''UGGSECP'' \<mapsto> password]\<rparr>"

definition fileWorld :: "string \<Rightarrow> string \<Rightarrow> world" where
  "fileWorld password contents = (envWorld password)\<lparr>files := [''vault.dat'' \<mapsto> contents]\<rparr>"

definition exampleInput :: VaultInput where
  "exampleInput =
     \<lparr>Service = ''ugglyc'', User = ''browser'', PasswordEnvVar = [], Filename = ''vault.dat''\<rparr>"

definition exampleProcess :: process where
  "exampleProcess = \<lparr>outside = exampleWorld, cells = (\<lambda>a. [])(0 := bytes), brk = 1\<rparr>"

definition otherProcess :: process where
  "otherProcess =
     \<lparr>outside = envWorld ''0123456789'', cells = (\<lambda>a. [1, 2, 3])(0 := bytes), brk = 9\<rparr>"

definition lockedInput :: VaultInput where
  "lockedInput =
     \<lparr>Service = ''ugglyc'', User = ''browser'', PasswordEnvVar = [],
      Filename = ''system cannot find the file specified.dat''\<rparr>"

definition lockedWorld :: world where
  "lockedWorld =
     exampleWorld\<lparr>secrets := [(''ugglyc'', ''browser'') \<mapsto> ''0123456789abcdef0123456789abcdef''],
                    files := [''system cannot find the file specified.dat'' \<mapsto> ''lxVA5e4=''],
                    readFault := [''system cannot find the file specified.dat'' \<mapsto> ''permission denied'']\<rparr>"


section \<open>Bytes, strings and the block cipher\<close>

text \<open>The table and the doubling on the examples of FIPS-197.\<close>

lemma sbox_examples: "length sbox = 256" "subByte 0x53 = 0xed" "xtime 0x57 = 0xae" "xtime 0xae = 0x47"
  by (simp_all add: sbox_def subByte_def xtime_def)

lemma char_of_byte_of_char: "char_of_byte (byte_of_char c) = c"
  by (simp add: char_of_byte_def byte_of_char_def unat_of_nat)

lemma byte_of_char_of_byte: "byte_of_char (char_of_byte b) = b"
proof -
  have "unat b < 256" using unsigned_less [of b, where 'a = nat] by simp
  then show ?thesis by (simp add: char_of_byte_def byte_of_char_def)
qed

lemma string_of_bytes_of: "string_of (bytes_of s) = s"
  by (simp add: string_of_def bytes_of_def char_of_byte_of_char map_idI)

lemma bytes_of_string_of: "bytes_of (string_of b) = b"
  by (simp add: string_of_def bytes_of_def byte_of_char_of_byte map_idI)

lemma length_bytes_of: "length (bytes_of s) = length s"
  by (simp add: bytes_of_def)

lemma length_Encrypt: "length (Encrypt b src) = 16"
  by (simp add: Encrypt_def addRoundKey_def Let_def)

section \<open>Cipher feedback mode\<close>

lemma length_XORBytes: "length (XORBytes x y) = min (length x) (length y)"
  by (simp add: XORBytes_def)

lemma length_copy: "length (copy dst src) = length dst"
  by (simp add: copy_def)

lemma XORBytes_twice: "XORBytes (XORBytes x y) y = take (length y) x"
proof (induction x arbitrary: y)
  case Nil
  then show ?case by (simp add: XORBytes_def)
next
  case (Cons a x)
  then show ?case by (cases y) (simp_all add: XORBytes_def xor.assoc)
qed

lemma XORKeyStream_Nil: "XORKeyStream b d next [] = []"
  by (simp add: XORKeyStream.simps)

lemma XORKeyStream_step:
  "src \<noteq> [] \<Longrightarrow>
   XORKeyStream b d next src =
     XORBytes src (Encrypt b next) @
     XORKeyStream b d
       (if d then copy next src else copy next (XORBytes src (Encrypt b next)))
       (drop (length (XORBytes src (Encrypt b next))) src)"
  by (subst XORKeyStream.simps) (simp add: Let_def)

lemma length_XORKeyStream: "length (XORKeyStream b d next src) = length src"
proof (induction "length src" arbitrary: src "next" rule: less_induct)
  case less
  show ?case
  proof (cases "src = []")
    case True
    then show ?thesis by (simp add: XORKeyStream_Nil)
  next
    case False
    let ?dst = "XORBytes src (Encrypt b next)"
    have n: "length ?dst = min (length src) 16"
      by (simp add: length_XORBytes length_Encrypt)
    with False have "length (drop (length ?dst) src) < length src"
      by (cases src) simp_all
    from less [OF this] n show ?thesis
      by (subst XORKeyStream_step [OF False]) simp
  qed
qed

lemma cfb_roundtrip:
  "length next = 16 \<Longrightarrow> XORKeyStream b True next (XORKeyStream b False next src) = src"
proof (induction "length src" arbitrary: src "next" rule: less_induct)
  case less
  show ?case
  proof (cases "src = []")
    case True
    then show ?thesis by (simp add: XORKeyStream_Nil)
  next
    case False
    define out where "out = Encrypt b next"
    define dst where "dst = XORBytes src out"
    define rest where "rest = XORKeyStream b False (copy next dst) (drop (length dst) src)"
    have lo: "length out = 16"
      by (simp add: out_def length_Encrypt)
    have ld: "length dst = min (length src) 16"
      by (simp add: dst_def length_XORBytes lo)
    have enc: "XORKeyStream b False next src = dst @ rest"
      by (subst XORKeyStream_step [OF False]) (simp add: out_def dst_def rest_def)
    have lrest: "length rest = length src - length dst"
      by (simp add: rest_def length_XORKeyStream)
    have ne: "dst @ rest \<noteq> []"
      using False ld by (cases src) auto
    have split: "length dst = 16 \<or> rest = []"
    proof (cases "16 \<le> length src")
      case True
      then show ?thesis using ld by simp
    next
      case False
      then have "length rest = 0" using ld lrest by simp
      then show ?thesis by simp
    qed
    have twice: "XORBytes dst out = take (length dst) src"
      unfolding dst_def by (simp add: XORBytes_twice lo length_XORBytes min_def)
    have x2: "XORBytes (dst @ rest) out = take (length dst) src"
      using split
    proof
      assume "length dst = 16"
      then have "zip (dst @ rest) out = zip dst out"
        using lo by (simp add: zip_append1)
      then show ?thesis using twice by (simp add: XORBytes_def)
    next
      assume "rest = []"
      then show ?thesis using twice by simp
    qed
    have cp: "copy next (dst @ rest) = copy next dst"
      using split less.prems by (auto simp: copy_def)
    have shorter: "length (drop (length dst) src) < length src"
      using False ld by (cases src) simp_all
    have ih: "XORKeyStream b True (copy next dst) rest = drop (length dst) src"
      unfolding rest_def using less.hyps [OF shorter] less.prems
      by (simp add: length_copy)
    have "XORKeyStream b True next (dst @ rest) =
            take (length dst) src @ XORKeyStream b True (copy next dst) (drop (length dst) (dst @ rest))"
      using ld by (subst XORKeyStream_step [OF ne]) (simp add: out_def [symmetric] x2 cp min_def)
    then show ?thesis using enc ih by simp
  qed
qed

section \<open>Decoding undoes encoding\<close>

lemma decodeMap_table: "list_all (\<lambda>i. decodeMap (encodeStd ! i) = i) [0..<64]"
  by code_simp

lemma decodeMap_encodeStd: "i < 64 \<Longrightarrow> decodeMap (encodeStd ! i) = i"
  using decodeMap_table by (simp add: list_all_iff)

lemma decodeMap_padChar: "decodeMap padChar = 255"
  by code_simp

lemma isNewline_padChar: "\<not> isNewline padChar"
  by code_simp

lemma decodeFrom_symbol:
  assumes "i < 64"
  shows "decodeFrom n dbuf si (encodeStd ! i # src) =
           (if length dbuf = 3 then
              (case decodeFrom n [] (si + 1) src of
                 Inl e \<Rightarrow> Inl e
               | Inr rest \<Rightarrow> Inr (quantumBytes (dbuf @ [i]) @ rest))
            else decodeFrom n (dbuf @ [i]) (si + 1) src)"
  using assms by (simp add: decodeMap_encodeStd split: sum.split)

lemma decodeFrom_pad2:
  "decodeFrom n [x, y] si [padChar, padChar] = Inr (quantumBytes [x, y])"
  by (simp add: decodeMap_padChar isNewline_padChar)

lemma decodeFrom_pad3:
  "decodeFrom n [x, y, z] si [padChar] = Inr (quantumBytes [x, y, z])"
  by (simp add: decodeMap_padChar isNewline_padChar)

lemma sextets:
  fixes v :: nat
  assumes "v < 2 ^ 24"
  shows "v div 2 ^ 18 mod 64 * 2 ^ 18 + v div 2 ^ 12 mod 64 * 2 ^ 12
           + v div 2 ^ 6 mod 64 * 2 ^ 6 + v mod 64 = v"
proof -
  have a: "v mod (2 ^ 18 * 64) = 2 ^ 18 * (v div 2 ^ 18 mod 64) + v mod 2 ^ 18"
    by (rule mod_mult2_eq)
  have b: "v mod (2 ^ 12 * 64) = 2 ^ 12 * (v div 2 ^ 12 mod 64) + v mod 2 ^ 12"
    by (rule mod_mult2_eq)
  have c: "v mod (2 ^ 6 * 64) = 2 ^ 6 * (v div 2 ^ 6 mod 64) + v mod 2 ^ 6"
    by (rule mod_mult2_eq)
  have "v mod (2 ^ 18 * 64) = v" using assms by simp
  with a b c show ?thesis by simp
qed

lemma quantumBytes4:
  "quantumBytes [s0, s1, s2, s3] =
     (let val = s0 * 2 ^ 18 + s1 * 2 ^ 12 + s2 * 2 ^ 6 + s3
      in [of_nat (val div 2 ^ 16), of_nat (val div 2 ^ 8), of_nat val])"
  by (simp add: quantumBytes_def)

lemma quantumBytes3:
  "quantumBytes [s0, s1, s2] =
     (let val = s0 * 2 ^ 18 + s1 * 2 ^ 12 + s2 * 2 ^ 6
      in [of_nat (val div 2 ^ 16), of_nat (val div 2 ^ 8)])"
proof -
  have r: "replicate (4 - length [s0, s1, s2]) (0::nat) = [0]"
    by simp
  have t: "take (length [s0, s1, s2] - 1) [x, y, z] = [x, y]" for x y z :: byte
    by simp
  show ?thesis
    unfolding quantumBytes_def r Let_def t by simp
qed

lemma quantumBytes2:
  "quantumBytes [s0, s1] =
     (let val = s0 * 2 ^ 18 + s1 * 2 ^ 12
      in [of_nat (val div 2 ^ 16)])"
proof -
  have r: "replicate (4 - length [s0, s1]) (0::nat) = [0, 0]"
    by (simp add: numeral_eq_Suc)
  have t: "take (length [s0, s1] - 1) [x, y, z] = [x]" for x y z :: byte
    by simp
  show ?thesis
    unfolding quantumBytes_def r Let_def t by simp
qed

lemma byte_256: "of_nat (x * 256 + y) = (of_nat y :: byte)"
  unfolding word_of_nat_eq_iff by (simp add: take_bit_eq_mod)

lemma unat_byte_less: "unat (a :: byte) < 256"
  using unsigned_less [of a, where 'a = nat] by simp

lemma quantum_three:
  fixes a b c :: byte
  defines "v \<equiv> unat a * 2 ^ 16 + unat b * 2 ^ 8 + unat c"
  shows "quantumBytes [v div 2 ^ 18 mod 64, v div 2 ^ 12 mod 64, v div 2 ^ 6 mod 64, v mod 64]
         = [a, b, c]"
proof -
  note lt = unat_byte_less [of a] unat_byte_less [of b] unat_byte_less [of c]
  have "v < 2 ^ 24" using lt by (simp add: v_def)
  then have val: "v div 2 ^ 18 mod 64 * 2 ^ 18 + v div 2 ^ 12 mod 64 * 2 ^ 12
           + v div 2 ^ 6 mod 64 * 2 ^ 6 + v mod 64 = v"
    by (rule sextets)
  have hi: "v div 2 ^ 16 = unat a" using lt by (simp add: v_def)
  have mid: "v div 2 ^ 8 = unat a * 256 + unat b" using lt by (simp add: v_def)
  have lo: "v = (unat a * 256 + unat b) * 256 + unat c" by (simp add: v_def)
  have b1: "(of_nat (v div 2 ^ 16) :: byte) = a"
    unfolding hi by simp
  have b2: "(of_nat (v div 2 ^ 8) :: byte) = b"
    unfolding mid byte_256 by simp
  have b3: "(of_nat v :: byte) = c"
    by (subst lo) (simp only: byte_256, simp)
  show ?thesis
    unfolding quantumBytes4 Let_def val b1 b2 b3 ..
qed

lemma quantum_two:
  fixes a b :: byte
  defines "v \<equiv> unat a * 2 ^ 16 + unat b * 2 ^ 8"
  shows "quantumBytes [v div 2 ^ 18 mod 64, v div 2 ^ 12 mod 64, v div 2 ^ 6 mod 64] = [a, b]"
proof -
  note lt = unat_byte_less [of a] unat_byte_less [of b]
  have "v < 2 ^ 24" using lt by (simp add: v_def)
  then have "v div 2 ^ 18 mod 64 * 2 ^ 18 + v div 2 ^ 12 mod 64 * 2 ^ 12
           + v div 2 ^ 6 mod 64 * 2 ^ 6 + v mod 64 = v"
    by (rule sextets)
  moreover have "v mod 64 = 0" by (simp add: v_def)
  ultimately have val: "v div 2 ^ 18 mod 64 * 2 ^ 18 + v div 2 ^ 12 mod 64 * 2 ^ 12
           + v div 2 ^ 6 mod 64 * 2 ^ 6 = v"
    by (simp only: add_0_right)
  have hi: "v div 2 ^ 16 = unat a" using lt by (simp add: v_def)
  have mid: "v div 2 ^ 8 = unat a * 256 + unat b" using lt by (simp add: v_def)
  have b1: "(of_nat (v div 2 ^ 16) :: byte) = a"
    unfolding hi by simp
  have b2: "(of_nat (v div 2 ^ 8) :: byte) = b"
    unfolding mid byte_256 by simp
  show ?thesis
    unfolding quantumBytes3 Let_def val b1 b2 ..
qed

lemma quantum_one:
  fixes a :: byte
  defines "v \<equiv> unat a * 2 ^ 16"
  shows "quantumBytes [v div 2 ^ 18 mod 64, v div 2 ^ 12 mod 64] = [a]"
proof -
  note lt = unat_byte_less [of a]
  have "v < 2 ^ 24" using lt by (simp add: v_def)
  then have "v div 2 ^ 18 mod 64 * 2 ^ 18 + v div 2 ^ 12 mod 64 * 2 ^ 12
           + v div 2 ^ 6 mod 64 * 2 ^ 6 + v mod 64 = v"
    by (rule sextets)
  moreover have "v mod 64 = 0" by (simp add: v_def)
  moreover have "v div 2 ^ 6 mod 64 = 0" by (simp add: v_def)
  ultimately have val: "v div 2 ^ 18 mod 64 * 2 ^ 18 + v div 2 ^ 12 mod 64 * 2 ^ 12 = v"
    by (simp only: add_0_right mult_zero_left)
  have hi: "v div 2 ^ 16 = unat a" by (simp add: v_def)
  have b1: "(of_nat (v div 2 ^ 16) :: byte) = a"
    unfolding hi by simp
  show ?thesis
    unfolding quantumBytes2 Let_def val b1 ..
qed

lemma decode_group1:
  "s0 < 64 \<Longrightarrow> s1 < 64 \<Longrightarrow>
   decodeFrom n [] si [encodeStd ! s0, encodeStd ! s1, padChar, padChar]
     = Inr (quantumBytes [s0, s1])"
  by (simp add: decodeFrom_symbol decodeFrom_pad2 del: decodeFrom.simps)

lemma decode_group2:
  "s0 < 64 \<Longrightarrow> s1 < 64 \<Longrightarrow> s2 < 64 \<Longrightarrow>
   decodeFrom n [] si [encodeStd ! s0, encodeStd ! s1, encodeStd ! s2, padChar]
     = Inr (quantumBytes [s0, s1, s2])"
  by (simp add: decodeFrom_symbol decodeFrom_pad3 del: decodeFrom.simps)

lemma decode_group3:
  "s0 < 64 \<Longrightarrow> s1 < 64 \<Longrightarrow> s2 < 64 \<Longrightarrow> s3 < 64 \<Longrightarrow>
   decodeFrom n [] si (encodeStd ! s0 # encodeStd ! s1 # encodeStd ! s2 # encodeStd ! s3 # src)
     = (case decodeFrom n [] (si + 4) src of
          Inl e \<Rightarrow> Inl e
        | Inr rest \<Rightarrow> Inr (quantumBytes [s0, s1, s2, s3] @ rest))"
  by (simp add: decodeFrom_symbol add.assoc split: sum.split del: decodeFrom.simps)

lemma decodeFrom_EncodeToString: "decodeFrom n [] si (EncodeToString bs) = Inr bs"
proof (induction bs arbitrary: si rule: EncodeToString.induct)
  case 1
  show ?case by simp
next
  case (2 a)
  have "decodeFrom n [] si (EncodeToString [a]) =
          Inr (quantumBytes [unat a * 2 ^ 16 div 2 ^ 18 mod 64, unat a * 2 ^ 16 div 2 ^ 12 mod 64])"
    unfolding EncodeToString.simps Let_def by (rule decode_group1) simp_all
  then show ?case unfolding quantum_one .
next
  case (3 a b)
  have "decodeFrom n [] si (EncodeToString [a, b]) =
          Inr (quantumBytes [(unat a * 2 ^ 16 + unat b * 2 ^ 8) div 2 ^ 18 mod 64,
                 (unat a * 2 ^ 16 + unat b * 2 ^ 8) div 2 ^ 12 mod 64,
                 (unat a * 2 ^ 16 + unat b * 2 ^ 8) div 2 ^ 6 mod 64])"
    unfolding EncodeToString.simps Let_def by (rule decode_group2) simp_all
  then show ?case unfolding quantum_two .
next
  case (4 a b c rest)
  let ?v = "unat a * 2 ^ 16 + unat b * 2 ^ 8 + unat c"
  have "decodeFrom n [] si (EncodeToString (a # b # c # rest)) =
          (case decodeFrom n [] (si + 4) (EncodeToString rest) of
             Inl e \<Rightarrow> Inl e
           | Inr r \<Rightarrow> Inr (quantumBytes [?v div 2 ^ 18 mod 64, ?v div 2 ^ 12 mod 64,
                                 ?v div 2 ^ 6 mod 64, ?v mod 64] @ r))"
    unfolding EncodeToString.simps Let_def append_Cons append_Nil
    by (rule decode_group3) simp_all
  then show ?case unfolding quantum_three 4 [OF refl] by simp
qed

lemma DecodeString_EncodeToString: "DecodeString (EncodeToString bs) = Inr bs"
  by (simp add: DecodeString_def decodeFrom_EncodeToString)

section \<open>What the decoder rejects\<close>

text \<open>
  A string that holds a character other than the 64 of the alphabet, \<open>=\<close> and
  the two line breaks is rejected, wherever the character stands.
\<close>

lemma skipNewlines_keeps:
  "c \<in> set s \<Longrightarrow> \<not> isNewline c \<Longrightarrow> c \<in> set (fst (skipNewlines s si))"
  by (induction s arbitrary: si) auto

lemma decodeFrom_rejects:
  assumes "c \<in> set s" and "decodeMap c = 255" and "\<not> isNewline c" and "c \<noteq> padChar"
  shows "\<exists>e. decodeFrom n dbuf si s = Inl e"
  using assms(1)
proof (induction s arbitrary: dbuf si)
  case Nil
  then show ?case by simp
next
  case (Cons x s)
  show ?case
  proof (cases "x = c")
    case True
    then show ?thesis using assms(2-4) by simp
  next
    case False
    with Cons.prems have in_s: "c \<in> set s" by simp
    note ih = Cons.IH [OF in_s]
    show ?thesis
    proof (cases "decodeMap x \<noteq> 255")
      case True
      then show ?thesis
        using ih [of "[]" "si + 1"] ih [of "dbuf @ [decodeMap x]" "si + 1"] by auto
    next
      case notsym: False
      show ?thesis
      proof (cases "isNewline x")
        case True
        then show ?thesis using notsym ih [of dbuf "si + 1"] by simp
      next
        case notnl: False
        show ?thesis
        proof (cases "x = padChar \<and> 2 \<le> length dbuf")
          case False
          then show ?thesis using notsym notnl by auto
        next
          case pad: True
          have k: "c \<in> set (fst (skipNewlines t j))" if "c \<in> set t" for t j
            using that assms(3) by (rule skipNewlines_keeps)
          have last: "\<exists>e. (case skipNewlines t j of
                              ([], si3) \<Rightarrow> Inr (quantumBytes dbuf)
                            | (c3 # src3, si3) \<Rightarrow> Inl (CorruptInputError si3)) = Inl e"
            if "c \<in> set t" for t j
            using k [OF that, of j] by (cases "skipNewlines t j") (auto split: list.split)
          show ?thesis
          proof (cases "length dbuf = 2")
            case False
            then show ?thesis
              using notsym notnl pad last [OF in_s, of "si + 1"] by simp
          next
            case two: True
            obtain t j where sk: "skipNewlines s (si + 1) = (t, j)"
              by (cases "skipNewlines s (si + 1)")
            then have ct: "c \<in> set t" using k [OF in_s, of "si + 1"] by simp
            then obtain c1 t1 where t: "t = c1 # t1" by (cases t) auto
            show ?thesis
            proof (cases "c1 = padChar")
              case False
              then show ?thesis using notsym notnl pad two sk t by simp
            next
              case True
              with ct t assms(4) have "c \<in> set t1" by auto
              from last [OF this, of "j + 1"] show ?thesis
                using notsym notnl pad two sk t True by simp
            qed
          qed
        qed
      qed
    qed
  qed
qed

lemma decodeMapFrom_outside: "c \<notin> set es \<Longrightarrow> decodeMapFrom es i c = 255"
  by (induction es arbitrary: i) auto

lemma DecodeString_rejects:
  assumes "c \<in> set s" and "c \<notin> set encodeStd" and "\<not> isNewline c" and "c \<noteq> padChar"
  shows "\<exists>e. DecodeString s = Inl e"
proof -
  have "decodeMap c = 255"
    using assms(2) by (simp add: decodeMap_def decodeMapFrom_outside)
  with assms show ?thesis
    unfolding DecodeString_def by (intro decodeFrom_rejects)
qed

section \<open>The shape of an encoding\<close>

lemma length_encodeStd: "length encodeStd = 64"
  by (simp add: encodeStd_def)

lemma symbol_in_alphabet: "encodeStd ! (k mod 64) \<in> set encodeStd"
  by (rule nth_mem) (simp add: length_encodeStd)

lemma length_EncodeToString: "length (EncodeToString bs) = 4 * ((length bs + 2) div 3)"
proof (induction bs rule: EncodeToString.induct)
  case (4 a b c rest)
  have "(length (a # b # c # rest) + 2) div 3 = Suc ((length rest + 2) div 3)"
    by simp
  then show ?case
    using 4 [OF refl] by (simp add: Let_def)
qed (simp_all add: Let_def)

lemma set_EncodeToString: "set (EncodeToString bs) \<subseteq> set encodeStd \<union> {padChar}"
proof (induction bs rule: EncodeToString.induct)
  case 1
  show ?case by simp
next
  case (2 a)
  show ?case
    unfolding EncodeToString.simps Let_def using symbol_in_alphabet by simp
next
  case (3 a b)
  show ?case
    unfolding EncodeToString.simps Let_def using symbol_in_alphabet by simp
next
  case (4 a b c rest)
  show ?case
    unfolding EncodeToString.simps Let_def using symbol_in_alphabet 4 [OF refl] by simp
qed

section \<open>The symmetric transform\<close>

lemma length_bytes: "length bytes = BlockSize"
  by (simp add: bytes_def BlockSize_def)

lemma NewCipher_valid:
  "length key = 16 \<or> length key = 24 \<or> length key = 32 \<Longrightarrow> NewCipher key = Inr (Block key)"
  by (simp add: NewCipher_def)

lemma NewCipher_invalid:
  "length key \<noteq> 16 \<Longrightarrow> length key \<noteq> 24 \<Longrightarrow> length key \<noteq> 32 \<Longrightarrow>
   NewCipher key = Inl (KeySizeError (length key))"
  by (simp add: NewCipher_def)

lemma encrypt_valid:
  "length password = 16 \<or> length password = 24 \<or> length password = 32 \<Longrightarrow>
   encrypt text password =
     Inr (encode (XORKeyStream (Block (bytes_of password)) False bytes (bytes_of text)))"
  by (simp add: encrypt_def NewCipher_valid length_bytes_of)

lemma encrypt_invalid:
  "length K \<noteq> 16 \<Longrightarrow> length K \<noteq> 24 \<Longrightarrow> length K \<noteq> 32 \<Longrightarrow>
   encrypt P K = Inl (KeySizeError (length K))"
  by (simp add: encrypt_def NewCipher_invalid length_bytes_of)

lemma encrypt_empty:
  "length K = 16 \<or> length K = 24 \<or> length K = 32 \<Longrightarrow> encrypt [] K = Inr []"
  by (simp add: encrypt_valid bytes_of_def XORKeyStream_Nil encode_def)

lemma decrypt_encode:
  assumes "length password = 16 \<or> length password = 24 \<or> length password = 32"
  shows "decrypt (encode (XORKeyStream (Block (bytes_of password)) False bytes (bytes_of text)))
           password = Returned (Inr text)"
proof -
  have iv: "length bytes = 16"
    by (simp add: bytes_def)
  show ?thesis
    using assms
    by (simp add: decrypt_def NewCipher_valid length_bytes_of decode_def encode_def
        DecodeString_EncodeToString cfb_roundtrip [OF iv] string_of_bytes_of)
qed

lemma decrypt_invalid:
  "length K \<noteq> 16 \<Longrightarrow> length K \<noteq> 24 \<Longrightarrow> length K \<noteq> 32 \<Longrightarrow>
   decrypt C K = Returned (Inl (KeySizeError (length K)))"
  by (simp add: decrypt_def NewCipher_invalid length_bytes_of)

lemma decrypt_decode_error:
  "length K = 16 \<or> length K = 24 \<or> length K = 32 \<Longrightarrow> DecodeString s = Inl e \<Longrightarrow>
   decrypt s K = Panicked e"
  by (simp add: decrypt_def NewCipher_valid length_bytes_of decode_def)

lemma decrypt_error:
  "decrypt C K = Returned (Inl err) \<Longrightarrow> err = KeySizeError (length K)"
  by (auto simp: decrypt_def NewCipher_def length_bytes_of decode_def Let_def
      split: if_splits sum.splits outcome.splits)

section \<open>Error texts\<close>

lemma hasPrefix_subset: "hasPrefix s p \<Longrightarrow> set p \<subseteq> set s"
  by (induction s p rule: hasPrefix.induct) auto

lemma Contains_subset: "Contains s sub \<Longrightarrow> set sub \<subseteq> set s"
proof (induction s)
  case Nil
  then show ?case by simp
next
  case (Cons c cs)
  then show ?case using hasPrefix_subset [of "c # cs" sub] by auto
qed

lemma digit_not_m: "d < 10 \<Longrightarrow> digit d \<noteq> CHR ''m''"
proof
  assume d: "d < 10" and "digit d = CHR ''m''"
  then have "of_char (digit d) = (of_char (CHR ''m'') :: nat)" by simp
  with d show False by (simp add: digit_def)
qed

lemma Itoa_no_m: "CHR ''m'' \<notin> set (Itoa n)"
proof (induction n rule: Itoa.induct)
  case (1 n)
  show ?case
  proof (cases "n < 10")
    case True
    then show ?thesis by (subst Itoa.simps) (simp add: digit_not_m [THEN not_sym])
  next
    case False
    then show ?thesis using 1 by (subst Itoa.simps) (simp add: digit_not_m [THEN not_sym])
  qed
qed

lemma KeySizeError_not_file_missing:
  "\<not> Contains (Error (KeySizeError k)) ''system cannot find the file specified''"
proof
  assume "Contains (Error (KeySizeError k)) ''system cannot find the file specified''"
  then have "set ''system cannot find the file specified'' \<subseteq> set (Error (KeySizeError k))"
    by (rule Contains_subset)
  moreover have "CHR ''m'' \<in> set ''system cannot find the file specified''" by simp
  ultimately have "CHR ''m'' \<in> set (Error (KeySizeError k))" by (rule subsetD)
  then show False by (simp add: Itoa_no_m)
qed

lemma ErrNotFound_recognised:
  "Contains (Error ErrNotFound) ''secret not found in keyring''"
  by (simp add: ErrNotFound_def)

lemma linux_text_not_recognised:
  "\<not> Contains ''open vault.dat: no such file or directory''
       ''system cannot find the file specified''"
  by simp

section \<open>Effects of the vault operations\<close>

lemma getPassword_world:
  "snd (getPassword v w) = (if keyring v then called (KeyringGet (service v) (user v)) w else w)"
  by (simp add: getPassword_def getPasswordKeyring_def keyring_Get_def)

lemma getPassword_called: "fst (getPassword v (called e w)) = fst (getPassword v w)"
  by (simp add: getPassword_def getPasswordKeyring_def keyring_Get_def getPasswordEnv_def
      Getenv_def called_def split: option.split)

lemma files_called: "files (called e w) = files w"
  by (simp add: called_def)

lemma calls_called: "calls (called e w) = calls w @ [e]"
  by (simp add: called_def)

lemma ReadFile_called: "fst (ReadFile f (called e w)) = fst (ReadFile f w)"
  by (simp add: ReadFile_def called_def split: option.split)

lemma keyring_Get_called: "fst (keyring_Get s u (called e w)) = fst (keyring_Get s u w)"
  by (simp add: keyring_Get_def called_def split: option.split)

lemma keyring_Get_world: "snd (keyring_Get s u w) = called (KeyringGet s u) w"
  by (simp add: keyring_Get_def)

lemma writeFault_getPassword: "writeFault (snd (getPassword v w)) = writeFault w"
  by (simp add: getPassword_world called_def)

lemma files_getPassword: "files (snd (getPassword v w)) = files w"
  by (simp add: getPassword_world called_def)

lemma calls_getPassword:
  "calls (snd (getPassword v w)) =
     calls w @ (if keyring v then [KeyringGet (service v) (user v)] else [])"
  by (simp add: getPassword_world called_def)

lemma Write_cases:
  "Write v P w =
     (case fst (getPassword v w) of
        Inl err \<Rightarrow> (Some err, snd (getPassword v w))
      | Inr K \<Rightarrow>
          (case encrypt P K of
             Inl err \<Rightarrow> (Some err, snd (getPassword v w))
           | Inr C \<Rightarrow> WriteFile (filename v) C (snd (getPassword v w))))"
  by (simp add: Write_def split: prod.split sum.split)

lemma loadFromDisk_cases:
  "loadFromDisk v w =
     (case fst (ReadFile (filename v) w) of
        Inl err \<Rightarrow> (Returned (Inl err), called (ReadFileCall (filename v)) w)
      | Inr data \<Rightarrow>
          (case fst (getPassword v w) of
             Inl err \<Rightarrow> (Returned (Inl err), snd (getPassword v (called (ReadFileCall (filename v)) w)))
           | Inr K \<Rightarrow> (decrypt data K, snd (getPassword v (called (ReadFileCall (filename v)) w)))))"
proof -
  obtain r w2 where g: "getPassword v (called (ReadFileCall (filename v)) w) = (r, w2)"
    by (cases "getPassword v (called (ReadFileCall (filename v)) w)")
  then have "fst (getPassword v w) = r"
    using getPassword_called [of v "ReadFileCall (filename v)" w] by simp
  with g show ?thesis
    by (simp add: loadFromDisk_def ReadFile_def split: sum.split)
qed

lemma Write_valid:
  assumes "fst (getPassword v w) = Inr K"
    and "length K = 16 \<or> length K = 24 \<or> length K = 32"
    and "writeFault w (filename v) = None"
  shows "fst (Write v P w) = None"
    and "files (snd (Write v P w)) =
           (files w)(filename v \<mapsto>
              encode (XORKeyStream (Block (bytes_of K)) False bytes (bytes_of P)))"
  using assms
  by (simp_all add: Write_cases encrypt_valid WriteFile_def writeFault_getPassword
      files_getPassword files_called)

lemma getPassword_envWorld:
  "fst (getPassword exampleEnvVault (envWorld p)) =
     (if p = [] then Inl (ErrorString ''no password found in UGGSECP env var'') else Inr p)"
  by (simp add: getPassword_def getPasswordEnv_def Getenv_def exampleEnvVault_def envWorld_def)

section \<open>The password generator\<close>

lemma length_letterRunes: "length letterRunes = 61"
  by (simp add: letterRunes_def)

lemma length_randStringRunes: "length (fst (randStringRunes n w)) = n"
  by (induction n arbitrary: w) (simp_all add: case_prod_beta)

lemma set_randStringRunes: "set (fst (randStringRunes n w)) \<subseteq> set letterRunes"
proof (induction n arbitrary: w)
  case 0
  show ?case by simp
next
  case (Suc n)
  obtain k w1 where i: "Intn (length letterRunes) w = (k, w1)"
    by (cases "Intn (length letterRunes) w")
  then have "k < length letterRunes"
    by (auto simp: Intn_def length_letterRunes)
  then have "letterRunes ! k \<in> set letterRunes"
    by (rule nth_mem)
  with i Suc [of w1] show ?case
    by (simp add: case_prod_beta)
qed

lemma zero_not_in_letterRunes: "CHR ''0'' \<notin> set letterRunes"
  by (simp add: letterRunes_def)

lemma NewVaultPassword_length: "length (fst (NewVaultPassword w)) = 32"
  by (simp add: NewVaultPassword_def length_randStringRunes keySize_def)

lemma randStringRunes_world: "snd (randStringRunes n w) = w\<lparr>randPos := randPos w + n\<rparr>"
proof (induction n arbitrary: w)
  case 0
  show ?case by simp
next
  case (Suc n)
  show ?case
    using Suc [of "w\<lparr>randPos := Suc (randPos w)\<rparr>"]
    by (auto simp: Intn_def split: prod.split)
qed

lemma NewVaultPassword_world:
  "snd (NewVaultPassword w) = w\<lparr>randSeed := now w, randPos := keySize\<rparr>"
  by (simp add: NewVaultPassword_def randStringRunes_world Seed_def)

section \<open>The initialisers\<close>

lemma InitEnvVar_world: "snd (InitEnvVar i w) = w"
  by (simp add: InitEnvVar_def getPassword_def Let_def split: sum.split)

lemma InitEnvVar_vault:
  "fst (fst (InitEnvVar i w)) =
     \<lparr>service = [], user = [], filename = Filename i,
      passwordEnvVar = PasswordEnvVar i, keyring = False\<rparr>"
  by (simp add: InitEnvVar_def getPassword_def Let_def split: sum.split)

lemma loadVault_existing:
  assumes "fst (keyring_Get (service v) (user v) w) = Inr p"
    and "fst (ReadFile (filename v) w) = Inr d"
  shows "snd (loadVault v w) =
           called (KeyringGet (service v) (user v)) (called (ReadFileCall (filename v)) w)"
proof -
  let ?v = "v\<lparr>keyring := True\<rparr>"
  let ?w = "called (KeyringGet (service v) (user v)) (called (ReadFileCall (filename v)) w)"
  have g: "fst (getPassword ?v w) = Inr p"
    using assms(1) by (simp add: getPassword_def getPasswordKeyring_def)
  have l: "loadFromDisk ?v w = (decrypt d p, ?w)"
    using assms(2) g by (simp add: loadFromDisk_cases getPassword_world)
  show ?thesis
  proof (cases "decrypt d p")
    case (Panicked e)
    with l show ?thesis by (simp add: loadVault_def)
  next
    case (Returned r)
    show ?thesis
    proof (cases r)
      case (Inl err)
      with Returned have "err = KeySizeError (length p)"
        by (simp add: decrypt_error)
      with l Returned Inl show ?thesis
        by (simp add: loadVault_def KeySizeError_not_file_missing del: Error.simps Contains.simps)
    next
      case (Inr contents)
      with l Returned show ?thesis by (simp add: loadVault_def)
    qed
  qed
qed

text \<open>
  With a working keyring that has no secret yet and no file, \<open>InitKeyring\<close>
  returns the error of the read and writes nothing when the error text lacks
  the words it looks for; when the text has them, it creates the empty file and
  returns no error.
\<close>

lemma InitKeyring_new_secret_file_missing:
  assumes "keyringGetFault w = None" and "keyringSetFault w = None"
    and "secrets w (Service i, User i) = None"
    and "readFault w (Filename i) = None" and "files w (Filename i) = None"
    and "\<not> Contains (''open '' @ Filename i @ '': '' @ notExistText w)
             ''system cannot find the file specified''"
  shows "fst (InitKeyring i w) =
           Returned (\<lparr>service = Service i, user = User i, filename = Filename i,
                       passwordEnvVar = [], keyring = True\<rparr>,
                     Some (PathError ''open'' (Filename i) (notExistText w)))"
    and "files (snd (InitKeyring i w)) = files w"
proof -
  let ?v = "\<lparr>service = Service i, user = User i, filename = Filename i,
             passwordEnvVar = [], keyring = False\<rparr>"
  let ?w1 = "called (KeyringGet (Service i) (User i)) w"
  obtain pw w2 where n: "NewVaultPassword ?w1 = (pw, w2)"
    by (cases "NewVaultPassword ?w1")
  then have w2: "w2 = ?w1\<lparr>randSeed := now ?w1, randPos := keySize\<rparr>"
    using NewVaultPassword_world [of ?w1] by simp
  let ?w3 = "called (KeyringSet (Service i) (User i) pw)
               (w2\<lparr>secrets := (secrets w2)((Service i, User i) \<mapsto> pw)\<rparr>)"
  have g: "keyring_Get (Service i) (User i) w = (Inl ErrNotFound, ?w1)"
    using assms(1,3) by (simp add: keyring_Get_def)
  have s: "initKeyring (Service i) (User i) ?w1 = (None, ?w3)"
    using assms(2) n w2 by (simp add: initKeyring_def keyring_Set_def called_def)
  have i: "InitKeyring i w = loadVault (?v\<lparr>keyring := True\<rparr>) ?w3"
    using g s ErrNotFound_recognised by (simp add: InitKeyring_def del: Contains.simps)
  have r: "fst (ReadFile (Filename i) ?w3) = Inl (PathError ''open'' (Filename i) (notExistText w))"
    using assms(4,5) w2 by (simp add: ReadFile_def called_def)
  have l: "loadFromDisk (?v\<lparr>keyring := True\<rparr>) ?w3 =
             (Returned (Inl (PathError ''open'' (Filename i) (notExistText w))),
              called (ReadFileCall (Filename i)) ?w3)"
    using r by (simp add: loadFromDisk_cases)
  have "loadVault (?v\<lparr>keyring := True\<rparr>) ?w3 =
          (Returned (?v\<lparr>keyring := True\<rparr>,
                     Some (PathError ''open'' (Filename i) (notExistText w))),
           called (ReadFileCall (Filename i)) ?w3)"
    using l assms(6) by (simp add: loadVault_def PathError_def del: Contains.simps)
  with i w2 show
    "fst (InitKeyring i w) =
           Returned (\<lparr>service = Service i, user = User i, filename = Filename i,
                       passwordEnvVar = [], keyring = True\<rparr>,
                     Some (PathError ''open'' (Filename i) (notExistText w)))"
    and "files (snd (InitKeyring i w)) = files w"
    by (simp_all add: called_def)
qed

lemma InitKeyring_new_secret_file_created:
  assumes "keyringGetFault w = None" and "keyringSetFault w = None"
    and "secrets w (Service i, User i) = None"
    and "readFault w (Filename i) = None" and "files w (Filename i) = None"
    and "writeFault w (Filename i) = None"
    and "Contains (''open '' @ Filename i @ '': '' @ notExistText w)
           ''system cannot find the file specified''"
  shows "fst (InitKeyring i w) =
           Returned (\<lparr>service = Service i, user = User i, filename = Filename i,
                       passwordEnvVar = [], keyring = True\<rparr>, None)"
    and "files (snd (InitKeyring i w)) = (files w)(Filename i \<mapsto> [])"
proof -
  let ?v = "\<lparr>service = Service i, user = User i, filename = Filename i,
             passwordEnvVar = [], keyring = False\<rparr>"
  let ?w1 = "called (KeyringGet (Service i) (User i)) w"
  obtain pw w2 where n: "NewVaultPassword ?w1 = (pw, w2)"
    by (cases "NewVaultPassword ?w1")
  then have w2: "w2 = ?w1\<lparr>randSeed := now ?w1, randPos := keySize\<rparr>"
    using NewVaultPassword_world [of ?w1] by simp
  have pw: "length pw = 32"
    using n NewVaultPassword_length [of ?w1] by simp
  let ?w3 = "called (KeyringSet (Service i) (User i) pw)
               (w2\<lparr>secrets := (secrets w2)((Service i, User i) \<mapsto> pw)\<rparr>)"
  let ?w4 = "called (ReadFileCall (Filename i)) ?w3"
  have g: "keyring_Get (Service i) (User i) w = (Inl ErrNotFound, ?w1)"
    using assms(1,3) by (simp add: keyring_Get_def)
  have s: "initKeyring (Service i) (User i) ?w1 = (None, ?w3)"
    using assms(2) n w2 by (simp add: initKeyring_def keyring_Set_def called_def)
  have i: "InitKeyring i w = loadVault (?v\<lparr>keyring := True\<rparr>) ?w3"
    using g s ErrNotFound_recognised by (simp add: InitKeyring_def del: Contains.simps)
  have r: "fst (ReadFile (Filename i) ?w3) = Inl (PathError ''open'' (Filename i) (notExistText w))"
    using assms(4,5) w2 by (simp add: ReadFile_def called_def)
  have l: "loadFromDisk (?v\<lparr>keyring := True\<rparr>) ?w3 =
             (Returned (Inl (PathError ''open'' (Filename i) (notExistText w))), ?w4)"
    using r by (simp add: loadFromDisk_cases)
  have p: "fst (getPassword (?v\<lparr>keyring := True\<rparr>) ?w4) = Inr pw"
    using assms(1) w2
    by (simp add: getPassword_def getPasswordKeyring_def keyring_Get_def called_def)
  have wr: "fst (Write (?v\<lparr>keyring := True\<rparr>) [] ?w4) = None"
    "files (snd (Write (?v\<lparr>keyring := True\<rparr>) [] ?w4)) = (files w)(Filename i \<mapsto> [])"
    using p pw assms(6) w2
    by (simp_all add: Write_cases encrypt_empty WriteFile_def getPassword_world called_def)
  have "loadVault (?v\<lparr>keyring := True\<rparr>) ?w3 =
          (Returned (?v\<lparr>keyring := True\<rparr>, fst (Write (?v\<lparr>keyring := True\<rparr>) [] ?w4)),
           snd (Write (?v\<lparr>keyring := True\<rparr>) [] ?w4))"
    using l assms(7)
    by (simp add: loadVault_def PathError_def case_prod_beta Let_def del: Contains.simps)
  with i wr show
    "fst (InitKeyring i w) =
           Returned (\<lparr>service = Service i, user = User i, filename = Filename i,
                       passwordEnvVar = [], keyring = True\<rparr>, None)"
    and "files (snd (InitKeyring i w)) = (files w)(Filename i \<mapsto> [])"
    by simp_all
qed

text \<open>
  When the keyring returns a secret and the file can be read, \<open>InitKeyring\<close>
  looks the secret up, reads the file, looks the secret up again and changes
  neither the keyring nor a file.
\<close>

lemma InitKeyring_readable_unchanged:
  assumes "fst (keyring_Get (Service i) (User i) w) = Inr p"
    and "fst (ReadFile (Filename i) w) = Inr d"
  shows "secrets (snd (InitKeyring i w)) = secrets w \<and>
         files (snd (InitKeyring i w)) = files w \<and>
         calls (snd (InitKeyring i w)) =
           calls w @ [KeyringGet (Service i) (User i), ReadFileCall (Filename i),
                      KeyringGet (Service i) (User i)]"
proof -
  let ?v = "\<lparr>service = Service i, user = User i, filename = Filename i,
             passwordEnvVar = [], keyring = False\<rparr>"
  let ?w1 = "called (KeyringGet (Service i) (User i)) w"
  have k: "keyring_Get (Service i) (User i) w = (Inr p, ?w1)"
    using assms(1) keyring_Get_world [of "Service i" "User i" w]
    by (cases "keyring_Get (Service i) (User i) w") simp
  have i: "InitKeyring i w = loadVault ?v ?w1"
    using k by (simp add: InitKeyring_def)
  have "snd (loadVault ?v ?w1) =
          called (KeyringGet (Service i) (User i)) (called (ReadFileCall (Filename i)) ?w1)"
    using loadVault_existing [of ?v ?w1 p d] assms
    by (simp add: keyring_Get_called ReadFile_called)
  with i show ?thesis
    by (simp add: called_def)
qed

lemma locked_text_recognised:
  "Contains ''open system cannot find the file specified.dat: permission denied''
     ''system cannot find the file specified''"
  by simp

section \<open>The stream on the memory\<close>

lemma cells_writeAt:
  "cells (writeAt a off xs p) a' =
     (if a' = a then take off (cells p a) @ xs @ drop (off + length xs) (cells p a)
      else cells p a')"
  by (simp add: writeAt_def)

lemma brk_writeAt: "brk (writeAt a off xs p) = brk p"
  by (simp add: writeAt_def)

lemma outside_writeAt: "outside (writeAt a off xs p) = outside p"
  by (simp add: writeAt_def)

lemma XORBytes_take:
  "n = min (length x) (length y) \<Longrightarrow> XORBytes (take n x) (take n y) = XORBytes x y"
  by (simp add: XORBytes_def take_zip [symmetric])

lemma xorKeyStreamLoop_encrypts:
  assumes "\<not> cfbDecrypt x" and "cfbNext x = nx" and "cfbOut x = ot"
    and "distinct [nx, ot, dst, src]"
    and "length (cells p nx) = 16" and "length (cells p ot) = 16"
    and "length (cells p src) = pos + len" and "length (cells p dst) = pos + len"
    and "cfbOutUsed x = 16 \<or> len = 0"
  shows "\<exists>p'. xorKeyStreamLoop x dst src pos len p = Returned p' \<and>
           cells p' dst =
             take pos (cells p dst) @
             XORKeyStream (cfbBlock x) False (cells p nx) (drop pos (cells p src)) \<and>
           (\<forall>a. a \<noteq> nx \<and> a \<noteq> ot \<and> a \<noteq> dst \<longrightarrow> cells p' a = cells p a) \<and>
           brk p' = brk p \<and> outside p' = outside p"
  using assms
proof (induction len arbitrary: x pos p rule: less_induct)
  case (less len)
  show ?case
  proof (cases "len = 0")
    case True
    with less.prems show ?thesis
      by (simp add: xorKeyStreamLoop.simps XORKeyStream_Nil)
  next
    case False
    with less.prems have used: "cfbOutUsed x = 16" by simp
    define s where "s = cells p src"
    define d where "d = cells p dst"
    define N where "N = cells p nx"
    define E where "E = Encrypt (cfbBlock x) N"
    define n where "n = min len 16"
    define c where "c = XORBytes (take n (drop pos s)) (take n E)"
    define p1 where "p1 = writeAt ot 0 E p"
    define p3 where "p3 = writeAt dst pos c p1"
    define p4 where "p4 = writeAt nx 0 c p3"
    define x' where "x' = x\<lparr>cfbOutUsed := n\<rparr>"
    note dist = less.prems(4)
    have lN: "length N = 16" and ls: "length s = pos + len" and ld: "length d = pos + len"
      using less.prems by (simp_all add: N_def s_def d_def)
    have lE: "length E = 16" by (simp add: E_def length_Encrypt)
    have npos: "0 < n" "n \<le> len" "n \<le> 16" using False by (simp_all add: n_def)
    have lc: "length c = n"
      using npos ls lE by (simp add: c_def length_XORBytes)
    have c_pure: "c = XORBytes (drop pos s) E"
      unfolding c_def by (rule XORBytes_take) (simp add: n_def ls lE)
    have c1_ot: "cells p1 ot = E"
      using less.prems(6) lE by (simp add: p1_def cells_writeAt)
    have c1_other: "cells p1 a = cells p a" if "a \<noteq> ot" for a
      using that by (simp add: p1_def cells_writeAt)
    have c3_dst: "cells p3 dst = take pos d @ c @ drop (pos + n) d"
      using dist by (simp add: p3_def cells_writeAt c1_other d_def lc)
    have c3_other: "cells p3 a = cells p1 a" if "a \<noteq> dst" for a
      using that by (simp add: p3_def cells_writeAt)
    have rd: "readAt dst pos n p3 = c"
      using ld lc by (simp add: readAt_def c3_dst)
    have c4_nx: "cells p4 nx = c @ drop n N"
      using dist by (simp add: p4_def cells_writeAt c3_other c1_other N_def lc)
    have c4_other: "cells p4 a = cells p3 a" if "a \<noteq> nx" for a
      using that by (simp add: p4_def cells_writeAt)
    have step: "xorKeyStreamLoop x dst src pos len p =
                  xorKeyStreamLoop x' dst src (pos + n) (len - n) p4"
    proof -
      have r1: "readAt nx 0 BlockSize p = N"
        using lN by (simp add: readAt_def N_def BlockSize_def)
      have r2: "readAt src pos n p1 = take n (drop pos s)"
        using dist by (simp add: readAt_def c1_other s_def)
      have r3: "readAt ot 0 n p1 = take n E"
        by (simp add: readAt_def c1_ot)
      have m: "min (BlockSize - 0) len = n" "min len (BlockSize - 0) = n"
        by (simp_all add: n_def BlockSize_def min.commute)
      have e: "Encrypt (cfbBlock x) N = E" by (simp add: E_def)
      show ?thesis
        using False used less.prems(1-3)
        unfolding x'_def p4_def p3_def
        by (subst xorKeyStreamLoop.simps)
          (simp add: BlockSize_def Let_def r1 [unfolded BlockSize_def] e
            p1_def [symmetric] min.commute [of 16 len] n_def [symmetric] r2 r3
            c_def [symmetric] rd [unfolded p3_def])
    qed
    have pre: "\<not> cfbDecrypt x'" "cfbNext x' = nx" "cfbOut x' = ot"
      using less.prems(1-3) by (simp_all add: x'_def)
    have l4: "length (cells p4 nx) = 16" "length (cells p4 ot) = 16"
      "length (cells p4 src) = (pos + n) + (len - n)"
      "length (cells p4 dst) = (pos + n) + (len - n)"
      using dist npos lN lE lc ls ld
      by (simp_all add: c4_nx c4_other c3_other c3_dst c1_ot c1_other s_def [symmetric])
    have u4: "cfbOutUsed x' = 16 \<or> len - n = 0"
      by (auto simp: x'_def n_def)
    have "len - n < len" using npos by simp
    from less.IH [OF this pre dist l4 u4]
    obtain p' where run: "xorKeyStreamLoop x' dst src (pos + n) (len - n) p4 = Returned p'"
      and res: "cells p' dst =
             take (pos + n) (cells p4 dst) @
             XORKeyStream (cfbBlock x') False (cells p4 nx) (drop (pos + n) (cells p4 src))"
      and frame: "\<forall>a. a \<noteq> nx \<and> a \<noteq> ot \<and> a \<noteq> dst \<longrightarrow> cells p' a = cells p4 a"
      and rest: "brk p' = brk p4" "outside p' = outside p4"
      by blast
    have src4: "cells p4 src = s"
      using dist by (simp add: c4_other c3_other c1_other s_def)
    have tk: "take (pos + n) (cells p4 dst) = take pos d @ c"
      using dist ld lc by (simp add: c4_other c3_dst)
    have ne: "drop pos s \<noteq> []" using ls False by auto
    have pure: "XORKeyStream (cfbBlock x) False N (drop pos s) =
                  c @ XORKeyStream (cfbBlock x) False (c @ drop n N) (drop (pos + n) s)"
      using lN lc npos
      by (subst XORKeyStream_step [OF ne])
        (simp add: E_def [symmetric] c_pure [symmetric] copy_def add.commute)
    have "cells p' dst = take pos d @ XORKeyStream (cfbBlock x) False N (drop pos s)"
      unfolding res tk src4 c4_nx pure by (simp add: x'_def)
    moreover have "\<forall>a. a \<noteq> nx \<and> a \<noteq> ot \<and> a \<noteq> dst \<longrightarrow> cells p' a = cells p a"
      using frame by (simp add: c4_other c3_other c1_other)
    moreover have "brk p' = brk p" "outside p' = outside p"
      using rest by (simp_all add: p4_def p3_def p1_def brk_writeAt outside_writeAt)
    ultimately show ?thesis
      using step run by (simp add: d_def N_def s_def)
  qed
qed


lemma encryptCall_result:
  assumes "cells p bytesAddr = bytes" and "bytesAddr < brk p"
  shows "fst (encryptCall P K p) = Returned (encrypt P K) \<and>
         cells (snd (encryptCall P K p)) bytesAddr = bytes \<and>
         bytesAddr < brk (snd (encryptCall P K p)) \<and>
         outside (snd (encryptCall P K p)) = outside p"
proof (cases "length K = 16 \<or> length K = 24 \<or> length K = 32")
  case False
  then have "encrypt P K = Inl (KeySizeError (length K))"
    by (simp add: encrypt_invalid)
  with False assms show ?thesis
    by (simp add: encryptCall_def alloc_def NewCipher_def length_bytes_of bytesAddr_def)
next
  case True
  define a where "a = brk p"
  define ao where "ao = Suc (Suc a)"
  define an where "an = Suc ao"
  define ac where "ac = Suc an"
  define blk where "blk = Block (bytes_of K)"
  define pk where "pk = snd (alloc (bytes_of K) p)"
  define p1 where "p1 = snd (alloc (bytes_of P) pk)"
  define x where
    "x = \<lparr>cfbBlock = blk, cfbNext = an, cfbOut = ao, cfbOutUsed = BlockSize,
           cfbDecrypt = False\<rparr>"
  define p2 where "p2 = snd (NewCFBEncrypter blk bytesAddr p1)"
  define p3 where "p3 = snd (alloc (replicate (length P) 0) p2)"
  have a0: "0 < a" "cells p 0 = bytes"
    using assms by (simp_all add: a_def bytesAddr_def)
  have lb: "length bytes = 16" by (simp add: bytes_def)
  have k: "alloc (bytes_of K) p = (a, pk)"
    by (simp add: alloc_def a_def pk_def)
  have ck: "cells pk = (cells p)(a := bytes_of K)" "brk pk = Suc a" "outside pk = outside p"
    by (simp_all add: pk_def alloc_def a_def)
  have pl: "alloc (bytes_of P) pk = (Suc a, p1)"
    by (simp add: alloc_def p1_def ck)
  have c1: "cells p1 = (cells pk)(Suc a := bytes_of P)" "brk p1 = ao" "outside p1 = outside p"
    by (simp_all add: p1_def alloc_def ck ao_def)
  have iv: "cells p1 0 = bytes"
    using a0 by (simp add: c1 ck)
  have cfb: "NewCFBEncrypter blk bytesAddr p1 = (Returned x, p2)"
    using iv lb
    by (simp add: p2_def NewCFBEncrypter_def newCFB_def alloc_def x_def c1 an_def
        bytesAddr_def BlockSize_def)
  have c2: "cells p2 = (cells p1)(ao := replicate 16 0, an := bytes)" "brk p2 = ac"
    "outside p2 = outside p"
    using iv lb
    by (simp_all add: p2_def NewCFBEncrypter_def newCFB_def alloc_def writeAt_def readAt_def
        c1 ck an_def ac_def ao_def bytesAddr_def BlockSize_def)
  have lp: "length (cells p2 (Suc a)) = length P"
    by (simp add: c2 c1 an_def ao_def length_bytes_of)
  have ct: "alloc (replicate (length P) 0) p2 = (ac, p3)"
    by (simp add: alloc_def p3_def c2)
  have c3: "cells p3 = (cells p2)(ac := replicate (length P) 0)" "brk p3 = Suc ac"
    "outside p3 = outside p"
    by (simp_all add: p3_def alloc_def c2)
  have nc: "NewCipher (cells pk a) = Inr blk"
    using True by (simp add: ck NewCipher_valid length_bytes_of blk_def)
  have call: "encryptCall P K p =
                (case cfbXORKeyStream x ac (Suc a) p3 of
                   Panicked e \<Rightarrow> (Panicked e, p3)
                 | Returned p4 \<Rightarrow> (Returned (Inr (encode (cells p4 ac))), p4))"
    by (simp add: encryptCall_def k nc pl cfb lp ct)
  have c3_at: "cells p3 ac = replicate (length P) 0" "cells p3 an = bytes"
    "cells p3 ao = replicate 16 0" "cells p3 (Suc a) = bytes_of P" "cells p3 0 = bytes"
    using a0 by (simp_all add: c3 c2 c1 ck ac_def an_def ao_def)
  have dist: "distinct [an, ao, ac, Suc a]"
    by (simp add: ac_def an_def ao_def)
  have "\<exists>p'. xorKeyStreamLoop x ac (Suc a) 0 (length P) p3 = Returned p' \<and>
           cells p' ac =
             take 0 (cells p3 ac) @
             XORKeyStream (cfbBlock x) False (cells p3 an) (drop 0 (cells p3 (Suc a))) \<and>
           (\<forall>b. b \<noteq> an \<and> b \<noteq> ao \<and> b \<noteq> ac \<longrightarrow> cells p' b = cells p3 b) \<and>
           brk p' = brk p3 \<and> outside p' = outside p3"
    using dist
    by (intro xorKeyStreamLoop_encrypts)
      (simp_all add: x_def c3_at lb length_bytes_of BlockSize_def)
  then obtain p4 where run: "xorKeyStreamLoop x ac (Suc a) 0 (length P) p3 = Returned p4"
    and res: "cells p4 ac = XORKeyStream blk False bytes (bytes_of P)"
    and frame: "\<forall>b. b \<noteq> an \<and> b \<noteq> ao \<and> b \<noteq> ac \<longrightarrow> cells p4 b = cells p3 b"
    and rest: "brk p4 = brk p3" "outside p4 = outside p3"
    by (auto simp: x_def c3_at)
  have stream: "cfbXORKeyStream x ac (Suc a) p3 = Returned p4"
    using run by (simp add: cfbXORKeyStream_def c3_at length_bytes_of)
  have "cells p4 0 = bytes"
    using frame c3_at(5) by (simp add: ac_def an_def ao_def)
  then show ?thesis
    using True rest
    by (simp add: call stream res encrypt_valid blk_def bytesAddr_def c3)
qed

text \<open>The result does depend on the memory: without the array the call panics.\<close>

lemma encryptCall_needs_array:
  assumes "length K = 16 \<or> length K = 24 \<or> length K = 32"
    and "length (cells p bytesAddr) \<noteq> 16" and "bytesAddr < brk p"
  shows "\<exists>e. fst (encryptCall P K p) = Panicked e"
  using assms
  by (simp add: encryptCall_def alloc_def NewCipher_valid length_bytes_of NewCFBEncrypter_def
      newCFB_def bytesAddr_def BlockSize_def)

section \<open>The round trip\<close>

text \<open>
  C1. For every key of 32 bytes and every plaintext, whatever bytes it holds,
  \<open>encrypt\<close> returns a ciphertext without error, and \<open>decrypt\<close> of that
  ciphertext under the same key returns the plaintext without error and
  without panic.
\<close>

theorem decrypt_encrypt_roundtrip:
  assumes "length K = 32"
  shows "\<exists>C. encrypt P K = Inr C \<and> decrypt C K = Returned (Inr P)"
  using assms by (simp add: encrypt_valid decrypt_encode)

theorem decrypt_encrypt_roundtrip_witness:
  "length ''0123456789abcdef0123456789abcdef'' = 32 \<and>
   (\<exists>C. encrypt [CHR ''h'', CHR 0xC3, CHR 0xA9, CHR 0x00, CHR 0xFF]
            ''0123456789abcdef0123456789abcdef'' = Inr C \<and>
        decrypt C ''0123456789abcdef0123456789abcdef''
          = Returned (Inr [CHR ''h'', CHR 0xC3, CHR 0xA9, CHR 0x00, CHR 0xFF]))"
  using decrypt_encrypt_roundtrip
    [of "''0123456789abcdef0123456789abcdef''" "[CHR ''h'', CHR 0xC3, CHR 0xA9, CHR 0x00, CHR 0xFF]"]
  by simp

section \<open>Keys of the wrong size\<close>

text \<open>
  C2 fails as stated: a key of 16 bytes is not 32 bytes long, yet \<open>encrypt\<close>
  succeeds with it and \<open>Write\<close> creates the file; and a \<open>Read\<close> under a 10-byte
  key does call the file system, to read the file.
\<close>

theorem key_size_16_accepted:
  "length ''0123456789abcdef'' \<noteq> 32 \<and>
   encrypt ''hello'' ''0123456789abcdef'' =
     Inr (encode (XORKeyStream (Block (bytes_of ''0123456789abcdef'')) False bytes
                    (bytes_of ''hello''))) \<and>
   fst (Write exampleEnvVault ''hello'' (envWorld ''0123456789abcdef'')) = None \<and>
   files (envWorld ''0123456789abcdef'') ''vault.dat'' = None \<and>
   files (snd (Write exampleEnvVault ''hello'' (envWorld ''0123456789abcdef''))) ''vault.dat''
     \<noteq> None \<and>
   calls (snd (Read exampleEnvVault (fileWorld ''0123456789'' ''lxVA5e4='')))
     = [ReadFileCall ''vault.dat'']"
  by (simp add: encrypt_valid Write_cases Read_def loadFromDisk_cases getPassword_def
      getPasswordEnv_def Getenv_def WriteFile_def ReadFile_def called_def
      exampleEnvVault_def fileWorld_def envWorld_def exampleWorld_def)

text \<open>
  C2, amended. For every key whose length is none of 16, 24 and 32, \<open>encrypt\<close>
  and \<open>decrypt\<close> return \<open>KeySizeError\<close>. A \<open>Write\<close> whose password resolves
  to such a key returns that error, makes no call on the file system and
  leaves every file as it was. A \<open>Read\<close> of a readable file returns that
  error, its only call on the file system is the read, and it leaves every
  file as it was.
\<close>

theorem bad_key_size_fails:
  assumes "length K \<noteq> 16" and "length K \<noteq> 24" and "length K \<noteq> 32"
  shows "encrypt P K = Inl (KeySizeError (length K)) \<and>
         decrypt C K = Returned (Inl (KeySizeError (length K))) \<and>
         (fst (getPassword v w) = Inr K \<longrightarrow>
            fst (Write v P w) = Some (KeySizeError (length K)) \<and>
            files (snd (Write v P w)) = files w \<and>
            calls (snd (Write v P w)) =
              calls w @ (if keyring v then [KeyringGet (service v) (user v)] else [])) \<and>
         (fst (getPassword v w) = Inr K \<longrightarrow> fst (ReadFile (filename v) w) = Inr d \<longrightarrow>
            fst (Read v w) = Returned (Inl (KeySizeError (length K))) \<and>
            files (snd (Read v w)) = files w \<and>
            calls (snd (Read v w)) =
              calls w @ ReadFileCall (filename v) #
                (if keyring v then [KeyringGet (service v) (user v)] else []))"
  using assms
  by (simp add: encrypt_invalid decrypt_invalid Write_cases Read_def loadFromDisk_cases
      files_getPassword calls_getPassword files_called calls_called)

theorem bad_key_size_fails_witness:
  "length ''0123456789'' \<noteq> 16 \<and> length ''0123456789'' \<noteq> 24 \<and> length ''0123456789'' \<noteq> 32 \<and>
   fst (getPassword exampleEnvVault (fileWorld ''0123456789'' ''lxVA5e4='')) = Inr ''0123456789'' \<and>
   fst (ReadFile (filename exampleEnvVault) (fileWorld ''0123456789'' ''lxVA5e4='')) = Inr ''lxVA5e4='' \<and>
   encrypt ''hello'' ''0123456789'' = Inl (KeySizeError 10) \<and>
   decrypt ''lxVA5e4='' ''0123456789'' = Returned (Inl (KeySizeError 10)) \<and>
   fst (Write exampleEnvVault ''hello'' (fileWorld ''0123456789'' ''lxVA5e4=''))
     = Some (KeySizeError 10) \<and>
   files (snd (Write exampleEnvVault ''hello'' (fileWorld ''0123456789'' ''lxVA5e4='')))
     = files (fileWorld ''0123456789'' ''lxVA5e4='') \<and>
   calls (snd (Write exampleEnvVault ''hello'' (fileWorld ''0123456789'' ''lxVA5e4=''))) = [] \<and>
   fst (Read exampleEnvVault (fileWorld ''0123456789'' ''lxVA5e4=''))
     = Returned (Inl (KeySizeError 10)) \<and>
   files (snd (Read exampleEnvVault (fileWorld ''0123456789'' ''lxVA5e4='')))
     = files (fileWorld ''0123456789'' ''lxVA5e4='')"
proof -
  have k: "length ''0123456789'' \<noteq> 16" "length ''0123456789'' \<noteq> 24"
    "length ''0123456789'' \<noteq> 32"
    by simp_all
  have g: "fst (getPassword exampleEnvVault (fileWorld ''0123456789'' ''lxVA5e4=''))
             = Inr ''0123456789''"
    by (simp add: getPassword_def getPasswordEnv_def Getenv_def exampleEnvVault_def
        fileWorld_def envWorld_def exampleWorld_def)
  have r: "fst (ReadFile (filename exampleEnvVault) (fileWorld ''0123456789'' ''lxVA5e4=''))
             = Inr ''lxVA5e4=''"
    by (simp add: ReadFile_def exampleEnvVault_def fileWorld_def envWorld_def exampleWorld_def)
  have c: "calls (fileWorld ''0123456789'' ''lxVA5e4='') = []"
    "keyring exampleEnvVault = False"
    by (simp_all add: exampleEnvVault_def fileWorld_def envWorld_def exampleWorld_def)
  have len: "length ''0123456789'' = 10"
    by simp
  show ?thesis
    using bad_key_size_fails [OF k, of "''hello''" "''lxVA5e4=''" exampleEnvVault
        "fileWorld ''0123456789'' ''lxVA5e4=''" "''lxVA5e4=''", unfolded len] g r c
    by simp
qed

section \<open>Input that is not base64\<close>

text \<open>
  C3 fails as stated: on the input \<open>!!!\<close>, which is not base64, \<open>decrypt\<close>
  under a 32-byte key does not return an error, it panics; so does \<open>Read\<close> of
  a file that holds \<open>!!!\<close>.
\<close>

theorem decrypt_panics_counterexample:
  "decrypt ''!!!'' ''0123456789abcdef0123456789abcdef'' = Panicked (CorruptInputError 0) \<and>
   fst (Read exampleEnvVault (fileWorld ''0123456789abcdef0123456789abcdef'' ''!!!''))
     = Panicked (CorruptInputError 0)"
proof -
  have d: "DecodeString ''!!!'' = Inl (CorruptInputError 0)"
    by code_simp
  have k: "length ''0123456789abcdef0123456789abcdef'' = 32"
    by simp
  have "decrypt ''!!!'' ''0123456789abcdef0123456789abcdef'' = Panicked (CorruptInputError 0)"
    using k d by (simp add: decrypt_decode_error)
  then show ?thesis
    by (simp add: Read_def loadFromDisk_cases getPassword_def getPasswordEnv_def Getenv_def
        ReadFile_def exampleEnvVault_def fileWorld_def envWorld_def exampleWorld_def)
qed

text \<open>
  C3, amended. For every input string that \<open>DecodeString\<close> rejects (every
  string with a character outside the alphabet, \<open>=\<close> and the line breaks is one,
  by \<open>DecodeString_rejects\<close>) and every key of a valid size, \<open>decrypt\<close> panics
  with the decoding error instead of returning it, and so does \<open>Read\<close> when the
  file holds such a string.
\<close>

theorem decode_failure_panics:
  assumes "DecodeString s = Inl e"
    and "length K = 16 \<or> length K = 24 \<or> length K = 32"
  shows "decrypt s K = Panicked e \<and>
         (fst (ReadFile (filename v) w) = Inr s \<longrightarrow> fst (getPassword v w) = Inr K \<longrightarrow>
            fst (Read v w) = Panicked e)"
  using assms by (simp add: decrypt_decode_error Read_def loadFromDisk_cases)

theorem decode_failure_panics_witness:
  "DecodeString ''aGVsbG8'' = Inl (CorruptInputError 4) \<and>
   length ''0123456789abcdef0123456789abcdef'' = 32 \<and>
   decrypt ''aGVsbG8'' ''0123456789abcdef0123456789abcdef'' = Panicked (CorruptInputError 4) \<and>
   fst (Read exampleEnvVault (fileWorld ''0123456789abcdef0123456789abcdef'' ''aGVsbG8''))
     = Panicked (CorruptInputError 4)"
proof -
  have d: "DecodeString ''aGVsbG8'' = Inl (CorruptInputError 4)"
    by code_simp
  have k: "length ''0123456789abcdef0123456789abcdef'' = 16 \<or>
           length ''0123456789abcdef0123456789abcdef'' = 24 \<or>
           length ''0123456789abcdef0123456789abcdef'' = 32"
    by simp
  have g: "fst (getPassword exampleEnvVault
                  (fileWorld ''0123456789abcdef0123456789abcdef'' ''aGVsbG8''))
             = Inr ''0123456789abcdef0123456789abcdef''"
    by (simp add: getPassword_def getPasswordEnv_def Getenv_def exampleEnvVault_def
        fileWorld_def envWorld_def exampleWorld_def)
  have r: "fst (ReadFile (filename exampleEnvVault)
                  (fileWorld ''0123456789abcdef0123456789abcdef'' ''aGVsbG8''))
             = Inr ''aGVsbG8''"
    by (simp add: ReadFile_def exampleEnvVault_def fileWorld_def envWorld_def exampleWorld_def)
  show ?thesis
    using decode_failure_panics [OF d k, of exampleEnvVault
        "fileWorld ''0123456789abcdef0123456789abcdef'' ''aGVsbG8''"] d g r
    by simp
qed

section \<open>Determinism\<close>

text \<open>
  C4. The IV \<open>bytes\<close> has 16 bytes, and in every memory in which the array of
  \<open>bytes\<close> holds them a call of \<open>encrypt\<close> returns a result that the plaintext
  and the key decide alone. Two calls in two such memories, whatever else the
  memories and the world outside hold, return the identical result; so do two
  calls one after the other, because a call leaves the array of \<open>bytes\<close> as it
  found it (the stream works on its own copy of the IV) and touches nothing
  outside the memory. The result is the one the function \<open>encrypt\<close> gives.
\<close>

theorem encrypt_deterministic:
  assumes "cells p bytesAddr = bytes" and "bytesAddr < brk p"
    and "cells q bytesAddr = bytes" and "bytesAddr < brk q"
  shows "length bytes = 16 \<and>
         fst (encryptCall P K q) = fst (encryptCall P K p) \<and>
         fst (encryptCall P K (snd (encryptCall P K p))) = fst (encryptCall P K p) \<and>
         cells (snd (encryptCall P K p)) bytesAddr = bytes \<and>
         bytesAddr < brk (snd (encryptCall P K p)) \<and>
         outside (snd (encryptCall P K p)) = outside p \<and>
         fst (encryptCall P K p) = Returned (encrypt P K)"
proof -
  note first = encryptCall_result [OF assms(1,2), of P K]
  then have "cells (snd (encryptCall P K p)) bytesAddr = bytes"
    and "bytesAddr < brk (snd (encryptCall P K p))"
    by simp_all
  from encryptCall_result [OF this, of P K] encryptCall_result [OF assms(3,4), of P K] first
  show ?thesis by (simp add: bytes_def)
qed

theorem encrypt_deterministic_witness:
  "cells exampleProcess bytesAddr = bytes \<and> bytesAddr < brk exampleProcess \<and>
   cells otherProcess bytesAddr = bytes \<and> bytesAddr < brk otherProcess \<and>
   outside otherProcess \<noteq> outside exampleProcess \<and>
   fst (encryptCall ''hello'' ''0123456789abcdef0123456789abcdef'' otherProcess)
     = fst (encryptCall ''hello'' ''0123456789abcdef0123456789abcdef'' exampleProcess) \<and>
   fst (encryptCall ''hello'' ''0123456789abcdef0123456789abcdef''
          (snd (encryptCall ''hello'' ''0123456789abcdef0123456789abcdef'' exampleProcess)))
     = fst (encryptCall ''hello'' ''0123456789abcdef0123456789abcdef'' exampleProcess)"
proof -
  have h: "cells exampleProcess bytesAddr = bytes" "bytesAddr < brk exampleProcess"
    "cells otherProcess bytesAddr = bytes" "bytesAddr < brk otherProcess"
    by (simp_all add: exampleProcess_def otherProcess_def bytesAddr_def)
  have o: "outside otherProcess \<noteq> outside exampleProcess"
  proof
    assume "outside otherProcess = outside exampleProcess"
    then have "environ (outside otherProcess) ''UGGSECP''
                 = environ (outside exampleProcess) ''UGGSECP''"
      by simp
    then show False
      by (simp add: exampleProcess_def otherProcess_def envWorld_def exampleWorld_def)
  qed
  show ?thesis
    using encrypt_deterministic [OF h, of "''hello''" "''0123456789abcdef0123456789abcdef''"] h o
    by simp
qed

section \<open>Initialising twice\<close>

text \<open>
  C5 does not hold of the code. The keyring has a secret for the service and
  user, and the configured file exists with content that is not empty, but it
  cannot be read, and its path holds the words \<open>system cannot find the file
  specified\<close>. \<open>InitKeyring\<close> takes the error of the read for a missing file,
  because the words it looks for are in the error text, writes the empty
  contents and returns no error: the file is now empty and \<open>WriteFile\<close> has been
  called.
\<close>

theorem InitKeyring_truncates_unreadable_file:
  "fst (keyring_Get (Service lockedInput) (User lockedInput) lockedWorld)
     = Inr ''0123456789abcdef0123456789abcdef'' \<and>
   files lockedWorld (Filename lockedInput) = Some ''lxVA5e4='' \<and>
   fst (InitKeyring lockedInput lockedWorld) =
     Returned (\<lparr>service = ''ugglyc'', user = ''browser'',
                 filename = ''system cannot find the file specified.dat'',
                 passwordEnvVar = [], keyring = True\<rparr>, None) \<and>
   files (snd (InitKeyring lockedInput lockedWorld)) (Filename lockedInput) = Some [] \<and>
   calls (snd (InitKeyring lockedInput lockedWorld)) =
     [KeyringGet ''ugglyc'' ''browser'',
      ReadFileCall ''system cannot find the file specified.dat'',
      KeyringGet ''ugglyc'' ''browser'',
      WriteFileCall ''system cannot find the file specified.dat'' []]"
proof -
  let ?f = "''system cannot find the file specified.dat''"
  let ?K = "''0123456789abcdef0123456789abcdef''"
  let ?v = "\<lparr>service = ''ugglyc'', user = ''browser'', filename = ?f,
             passwordEnvVar = [], keyring = True\<rparr>"
  let ?w1 = "called (KeyringGet ''ugglyc'' ''browser'') lockedWorld"
  let ?w2 = "called (ReadFileCall ?f) ?w1"
  have g: "keyring_Get ''ugglyc'' ''browser'' lockedWorld = (Inr ?K, ?w1)"
    by (simp add: keyring_Get_def lockedWorld_def exampleWorld_def)
  have r: "fst (ReadFile ?f ?w1) = Inl (ErrorString ''open system cannot find the file specified.dat: permission denied'')"
    by (simp add: ReadFile_def PathError_def called_def lockedWorld_def exampleWorld_def)
  have l: "loadFromDisk ?v ?w1 =
             (Returned (Inl (ErrorString ''open system cannot find the file specified.dat: permission denied'')), ?w2)"
    using r by (simp add: loadFromDisk_cases)
  have p: "fst (getPassword ?v ?w2) = Inr ?K"
    by (simp add: getPassword_def getPasswordKeyring_def keyring_Get_def called_def
        lockedWorld_def exampleWorld_def)
  have k: "length ?K = 16 \<or> length ?K = 24 \<or> length ?K = 32"
    by simp
  have wr: "Write ?v [] ?w2 =
              WriteFile ?f [] (called (KeyringGet ''ugglyc'' ''browser'') ?w2)"
    using p encrypt_empty [OF k] by (simp add: Write_cases getPassword_world)
  have lv: "loadVault (?v\<lparr>keyring := False\<rparr>) ?w1 =
              (Returned (?v, fst (Write ?v [] ?w2)), snd (Write ?v [] ?w2))"
    using l locked_text_recognised
    by (simp add: loadVault_def Let_def case_prod_beta del: Contains.simps)
  have i: "InitKeyring lockedInput lockedWorld = loadVault (?v\<lparr>keyring := False\<rparr>) ?w1"
    using g by (simp add: InitKeyring_def lockedInput_def)
  show ?thesis
    unfolding i lv wr
    by (simp add: WriteFile_def called_def keyring_Get_def lockedInput_def lockedWorld_def
        exampleWorld_def)
qed

section \<open>A missing file\<close>

text \<open>
  C6 does not hold of the code. With a working keyring and no file, on a
  platform whose text for a missing file is \<open>no such file or directory\<close>,
  \<open>InitKeyring\<close> stores a new secret, then returns the error of the read, and
  the file is still missing: the test for a missing file looks for the words
  \<open>system cannot find the file specified\<close> in the error text.
\<close>

theorem InitKeyring_missing_file_linux:
  "files exampleWorld ''vault.dat'' = None \<and>
   fst (InitKeyring exampleInput exampleWorld) =
     Returned (\<lparr>service = ''ugglyc'', user = ''browser'', filename = ''vault.dat'',
                 passwordEnvVar = [], keyring = True\<rparr>,
               Some (ErrorString ''open vault.dat: no such file or directory'')) \<and>
   files (snd (InitKeyring exampleInput exampleWorld)) ''vault.dat'' = None"
proof -
  have h: "keyringGetFault exampleWorld = None" "keyringSetFault exampleWorld = None"
    "secrets exampleWorld (Service exampleInput, User exampleInput) = None"
    "readFault exampleWorld (Filename exampleInput) = None"
    "files exampleWorld (Filename exampleInput) = None"
    by (simp_all add: exampleWorld_def)
  have t: "\<not> Contains (''open '' @ Filename exampleInput @ '': '' @ notExistText exampleWorld)
                ''system cannot find the file specified''"
    using linux_text_not_recognised by (simp add: exampleInput_def exampleWorld_def)
  show ?thesis
    using InitKeyring_new_secret_file_missing [OF h t] h(5)
    by (simp add: exampleInput_def exampleWorld_def PathError_def)
qed

section \<open>The choice of the initialiser\<close>

text \<open>
  C7. \<open>InitSmart\<close> is \<open>InitEnvVar\<close> when the field \<open>PasswordEnvVar\<close> is not
  empty, whatever \<open>Service\<close> and \<open>User\<close> are: the vault it returns reads its
  password from that variable and carries no keyring coordinates, and the world
  is as before, so the keyring is not consulted. It is \<open>InitKeyring\<close> when the
  field is empty.
\<close>

theorem InitSmart_selects:
  "(PasswordEnvVar i \<noteq> [] \<longrightarrow>
      InitSmart i w = (Returned (fst (InitEnvVar i w)), snd (InitEnvVar i w)) \<and>
      fst (fst (InitEnvVar i w)) =
        \<lparr>service = [], user = [], filename = Filename i,
         passwordEnvVar = PasswordEnvVar i, keyring = False\<rparr> \<and>
      snd (InitSmart i w) = w) \<and>
   (PasswordEnvVar i = [] \<longrightarrow> InitSmart i w = InitKeyring i w)"
proof (cases "PasswordEnvVar i = []")
  case True
  then show ?thesis
    by (simp add: InitSmart_def)
next
  case False
  then have "InitSmart i w = (Returned (fst (InitEnvVar i w)), snd (InitEnvVar i w))"
    by (simp add: InitSmart_def case_prod_beta)
  moreover have "snd (InitEnvVar i w) = w"
    by (rule InitEnvVar_world)
  ultimately show ?thesis
    using False InitEnvVar_vault [of i w] by simp
qed

theorem InitSmart_selects_witness:
  "PasswordEnvVar (exampleInput\<lparr>PasswordEnvVar := ''UGGSECP''\<rparr>) \<noteq> [] \<and>
   Service (exampleInput\<lparr>PasswordEnvVar := ''UGGSECP''\<rparr>) = ''ugglyc'' \<and>
   InitSmart (exampleInput\<lparr>PasswordEnvVar := ''UGGSECP''\<rparr>)
       (envWorld ''0123456789abcdef0123456789abcdef'')
     = (Returned (exampleEnvVault, None), envWorld ''0123456789abcdef0123456789abcdef'') \<and>
   PasswordEnvVar exampleInput = [] \<and>
   InitSmart exampleInput exampleWorld = InitKeyring exampleInput exampleWorld"
proof -
  let ?i = "exampleInput\<lparr>PasswordEnvVar := ''UGGSECP''\<rparr>"
  let ?w = "envWorld ''0123456789abcdef0123456789abcdef''"
  have e: "fst (InitEnvVar ?i ?w) = (exampleEnvVault, None)"
    by (simp add: InitEnvVar_def getPassword_def getPasswordEnv_def Getenv_def
        exampleInput_def exampleEnvVault_def envWorld_def exampleWorld_def)
  show ?thesis
    using InitSmart_selects [of ?i ?w] InitSmart_selects [of exampleInput exampleWorld] e
    by (simp add: exampleInput_def InitEnvVar_world)
qed

section \<open>The alphabet of a password\<close>

text \<open>
  C8 does not hold of the code. A password of \<open>NewVaultPassword\<close> has 32
  characters, all from \<open>letterRunes\<close>; but \<open>letterRunes\<close> has 61 symbols, not
  62: the digit \<open>0\<close> is missing from it and is never part of a password.
\<close>

theorem NewVaultPassword_alphabet:
  "length (fst (NewVaultPassword w)) = 32 \<and>
   set (fst (NewVaultPassword w)) \<subseteq> set letterRunes \<and>
   length letterRunes = 61 \<and>
   CHR ''0'' \<notin> set (fst (NewVaultPassword w))"
  using set_randStringRunes [of keySize "Seed (now w) w"] zero_not_in_letterRunes
  by (auto simp: NewVaultPassword_def length_randStringRunes keySize_def length_letterRunes)

section \<open>The format of the file\<close>

text \<open>
  C9. For every plaintext and every key of a valid size, a \<open>Write\<close> that the
  file system accepts succeeds and leaves in the file exactly the padded
  standard base64 encoding of the raw ciphertext: four characters of the
  alphabet or \<open>=\<close> for every three bytes begun. The ciphertext is as long as
  the plaintext, and the empty plaintext gives the empty ciphertext and an
  empty file.
\<close>

theorem Write_file_format:
  assumes "fst (getPassword v w) = Inr K"
    and "length K = 16 \<or> length K = 24 \<or> length K = 32"
    and "writeFault w (filename v) = None"
  shows "\<exists>cipherText.
           cipherText = XORKeyStream (Block (bytes_of K)) False bytes (bytes_of P) \<and>
           fst (Write v P w) = None \<and>
           files (snd (Write v P w)) (filename v) = Some (EncodeToString cipherText) \<and>
           length (EncodeToString cipherText) = 4 * ((length cipherText + 2) div 3) \<and>
           set (EncodeToString cipherText) \<subseteq> set encodeStd \<union> {padChar} \<and>
           length cipherText = length P \<and>
           (P = [] \<longrightarrow> cipherText = [] \<and> files (snd (Write v P w)) (filename v) = Some [])"
proof -
  let ?c = "XORKeyStream (Block (bytes_of K)) False bytes (bytes_of P)"
  have l: "length ?c = length P"
    by (simp add: length_XORKeyStream length_bytes_of)
  have f: "files (snd (Write v P w)) (filename v) = Some (EncodeToString ?c)"
    using Write_valid(2) [OF assms] by (simp add: encode_def)
  have e: "P = [] \<longrightarrow> ?c = [] \<and> files (snd (Write v P w)) (filename v) = Some []"
    using f l by auto
  show ?thesis
    using Write_valid(1) [OF assms] f l e length_EncodeToString set_EncodeToString by blast
qed

theorem Write_file_format_witness:
  "fst (getPassword exampleEnvVault (envWorld ''0123456789abcdef0123456789abcdef''))
     = Inr ''0123456789abcdef0123456789abcdef'' \<and>
   length ''0123456789abcdef0123456789abcdef'' = 32 \<and>
   writeFault (envWorld ''0123456789abcdef0123456789abcdef'') (filename exampleEnvVault) = None \<and>
   fst (Write exampleEnvVault ''hello'' (envWorld ''0123456789abcdef0123456789abcdef'')) = None \<and>
   (\<exists>cipherText.
      files (snd (Write exampleEnvVault ''hello'' (envWorld ''0123456789abcdef0123456789abcdef'')))
        ''vault.dat'' = Some (EncodeToString cipherText) \<and>
      length cipherText = 5 \<and> length (EncodeToString cipherText) = 8) \<and>
   files (snd (Write exampleEnvVault [] (envWorld ''0123456789abcdef0123456789abcdef'')))
     ''vault.dat'' = Some []"
proof -
  let ?K = "''0123456789abcdef0123456789abcdef''"
  have g: "fst (getPassword exampleEnvVault (envWorld ?K)) = Inr ?K"
    by (simp add: getPassword_envWorld)
  have k: "length ?K = 16 \<or> length ?K = 24 \<or> length ?K = 32"
    by simp
  have f: "writeFault (envWorld ?K) (filename exampleEnvVault) = None"
    by (simp add: envWorld_def exampleWorld_def)
  have n: "filename exampleEnvVault = ''vault.dat''"
    by (simp add: exampleEnvVault_def)
  from Write_file_format [OF g k f, of "''hello''"] Write_file_format [OF g k f, of "[]"]
  show ?thesis using g f unfolding n by auto
qed

section \<open>Errors of Write\<close>

text \<open>
  C10. When \<open>Write\<close> fails because the password cannot be resolved or because
  \<open>encrypt\<close> fails, it returns that error, every file is as it was and no
  call on the file system has been made (the only call is the keyring lookup of
  a keyring vault). \<open>WriteFile\<close> is reached exactly when both steps have
  succeeded: a \<open>WriteFile\<close> call that \<open>Write\<close> adds carries the ciphertext that
  \<open>encrypt\<close> returned under the resolved password.
\<close>

theorem Write_error_leaves_file:
  "(fst (getPassword v w) = Inl e \<or> (fst (getPassword v w) = Inr K \<and> encrypt P K = Inl e) \<longrightarrow>
      fst (Write v P w) = Some e \<and>
      files (snd (Write v P w)) = files w \<and>
      calls (snd (Write v P w)) =
        calls w @ (if keyring v then [KeyringGet (service v) (user v)] else [])) \<and>
   (fst (getPassword v w) = Inr K \<and> encrypt P K = Inr C \<longrightarrow>
      Write v P w = WriteFile (filename v) C (snd (getPassword v w))) \<and>
   (WriteFileCall f d \<in> set (calls (snd (Write v P w))) \<and> WriteFileCall f d \<notin> set (calls w) \<longrightarrow>
      (\<exists>K'. fst (getPassword v w) = Inr K' \<and> encrypt P K' = Inr d))"
proof -
  have "\<exists>K'. fst (getPassword v w) = Inr K' \<and> encrypt P K' = Inr d"
    if "WriteFileCall f d \<in> set (calls (snd (Write v P w)))"
      and "WriteFileCall f d \<notin> set (calls w)"
  proof (cases "fst (getPassword v w)")
    case (Inl err)
    with that show ?thesis
      by (simp add: Write_cases calls_getPassword split: if_splits)
  next
    case (Inr K')
    show ?thesis
    proof (cases "encrypt P K'")
      case (Inl err)
      with Inr that show ?thesis
        by (simp add: Write_cases calls_getPassword split: if_splits)
    next
      case enc: (Inr C')
      with Inr that show ?thesis
        by (auto simp: Write_cases calls_getPassword WriteFile_def calls_called
            split: if_splits option.splits)
    qed
  qed
  then show ?thesis
    by (auto simp: Write_cases files_getPassword calls_getPassword)
qed

theorem Write_error_leaves_file_witness:
  "fst (getPassword exampleEnvVault exampleWorld)
     = Inl (ErrorString ''no password found in UGGSECP env var'') \<and>
   fst (Write exampleEnvVault ''hello'' exampleWorld)
     = Some (ErrorString ''no password found in UGGSECP env var'') \<and>
   files (snd (Write exampleEnvVault ''hello'' exampleWorld)) = files exampleWorld \<and>
   calls (snd (Write exampleEnvVault ''hello'' exampleWorld)) = [] \<and>
   fst (getPassword exampleEnvVault (envWorld ''0123456789'')) = Inr ''0123456789'' \<and>
   encrypt ''hello'' ''0123456789'' = Inl (KeySizeError 10) \<and>
   fst (Write exampleEnvVault ''hello'' (envWorld ''0123456789'')) = Some (KeySizeError 10) \<and>
   files (snd (Write exampleEnvVault ''hello'' (envWorld ''0123456789'')))
     = files (envWorld ''0123456789'') \<and>
   calls (snd (Write exampleEnvVault ''hello'' (envWorld ''0123456789''))) = [] \<and>
   fst (getPassword exampleEnvVault (envWorld ''0123456789abcdef0123456789abcdef''))
     = Inr ''0123456789abcdef0123456789abcdef'' \<and>
   encrypt ''hello'' ''0123456789abcdef0123456789abcdef''
     = Inr (encode (XORKeyStream (Block (bytes_of ''0123456789abcdef0123456789abcdef'')) False
                      bytes (bytes_of ''hello''))) \<and>
   Write exampleEnvVault ''hello'' (envWorld ''0123456789abcdef0123456789abcdef'')
     = WriteFile ''vault.dat''
         (encode (XORKeyStream (Block (bytes_of ''0123456789abcdef0123456789abcdef'')) False
                    bytes (bytes_of ''hello'')))
         (envWorld ''0123456789abcdef0123456789abcdef'') \<and>
   calls (snd (Write exampleEnvVault ''hello'' (envWorld ''0123456789abcdef0123456789abcdef'')))
     = [WriteFileCall ''vault.dat''
          (encode (XORKeyStream (Block (bytes_of ''0123456789abcdef0123456789abcdef'')) False
                     bytes (bytes_of ''hello'')))]"
proof -
  let ?K = "''0123456789abcdef0123456789abcdef''"
  let ?C = "encode (XORKeyStream (Block (bytes_of ?K)) False bytes (bytes_of ''hello''))"
  have c2: "calls (snd (WriteFile ''vault.dat'' ?C (envWorld ?K))) = [WriteFileCall ''vault.dat'' ?C]"
    by (simp add: WriteFile_def called_def envWorld_def exampleWorld_def)
  have g2: "fst (getPassword exampleEnvVault (envWorld ?K)) = Inr ?K"
    by (simp add: getPassword_envWorld)
  have e2: "encrypt ''hello'' ?K = Inr ?C"
    by (simp add: encrypt_valid)
  have w2: "snd (getPassword exampleEnvVault (envWorld ?K)) = envWorld ?K"
    "filename exampleEnvVault = ''vault.dat''"
    by (simp_all add: getPassword_world exampleEnvVault_def)
  have g0: "fst (getPassword exampleEnvVault exampleWorld)
              = Inl (ErrorString ''no password found in UGGSECP env var'')"
    by (simp add: getPassword_def getPasswordEnv_def Getenv_def exampleEnvVault_def
        exampleWorld_def)
  have g1: "fst (getPassword exampleEnvVault (envWorld ''0123456789'')) = Inr ''0123456789''"
    by (simp add: getPassword_envWorld)
  have e1: "encrypt ''hello'' ''0123456789'' = Inl (KeySizeError 10)"
    using encrypt_invalid [of "''0123456789''" "''hello''"] by simp
  have c: "calls exampleWorld = []" "calls (envWorld ''0123456789'') = []"
    "keyring exampleEnvVault = False"
    by (simp_all add: exampleEnvVault_def envWorld_def exampleWorld_def)
  show ?thesis
    using
      Write_error_leaves_file [of exampleEnvVault exampleWorld
        "ErrorString ''no password found in UGGSECP env var''" "[]" "''hello''" "[]" "[]" "[]"]
      Write_error_leaves_file [of exampleEnvVault "envWorld ''0123456789''"
        "KeySizeError 10" "''0123456789''" "''hello''" "[]" "[]" "[]"]
      Write_error_leaves_file [of exampleEnvVault "envWorld ?K" "KeySizeError 10" ?K
        "''hello''" ?C "[]" "[]"]
      Write_error_leaves_file [of exampleEnvVault "envWorld ?K" "KeySizeError 10" ?K
        "''hello''" ?C "''vault.dat''" ?C]
      g0 g1 e1 c g2 e2 w2 c2
    by simp
qed

end
